theory Spec2Isabelle
  imports Main "HOL-Library.Word" "HOL-Library.Sublist"
begin

unbundle bit_operations_syntax

section \<open>Machine types and run-time failures\<close>

text \<open>
  Go's \<open>uint32\<close> and \<open>uint16\<close> are words of that width, a \<open>byte\<close> is a \<open>char\<close>
  (eight bits), and a Go \<open>string\<close> is its sequence of bytes, so \<open>len\<close> is
  \<open>length\<close>.  Go's \<open>int\<close> holds lengths and indices far below its range and is a
  natural number or an integer without wrap-around.  An index or slice expression out of
  range panics; a panic is the \<open>Inl\<close> branch of a sum.
\<close>

type_synonym u32 = "32 word"
type_synonym u16 = "16 word"

datatype panic = IndexOutOfRange | SliceBoundsOutOfRange

text \<open>\<open>xs[i]\<close> of Go: the element, or the index panic.\<close>

definition at :: "'a list \<Rightarrow> nat \<Rightarrow> panic + 'a" where
  "at xs i = (if i < length xs then Inr (xs ! i) else Inl IndexOutOfRange)"

text \<open>Sequencing of computations that may panic.\<close>

definition bindP :: "panic + 'a \<Rightarrow> ('a \<Rightarrow> panic + 'b) \<Rightarrow> panic + 'b" where
  "bindP m f = (case m of Inl p \<Rightarrow> Inl p | Inr x \<Rightarrow> f x)"

section \<open>DAWG units (dawg.go)\<close>

definition precisionMask :: u32 where "precisionMask = 0xFFFFFFFF"
definition isLeafBit :: u32 where "isLeafBit = push_bit 31 1"
definition hasLeafBit :: u32 where "hasLeafBit = push_bit 8 1"
definition extensionBit :: u32 where "extensionBit = push_bit 9 1"

definition unitHasLeaf :: "u32 \<Rightarrow> bool" where
  "unitHasLeaf u = (u AND hasLeafBit \<noteq> 0)"

definition unitValue :: "u32 \<Rightarrow> u32" where
  "unitValue u = u AND NOT isLeafBit"

definition unitLabel :: "u32 \<Rightarrow> u32" where
  "unitLabel u = u AND (isLeafBit OR 0xFF)"

definition unitOffset :: "u32 \<Rightarrow> u32" where
  "unitOffset u =
     push_bit (unat (drop_bit 6 (u AND extensionBit))) (drop_bit 10 u) AND precisionMask"

text \<open>The offset as the specification words it: shift by the extension bit itself.\<close>

definition offset_spec :: "u32 \<Rightarrow> u32" where
  "offset_spec u = push_bit (unat (drop_bit 9 u AND 1)) (drop_bit 10 u) AND 0xFFFFFFFF"

subsection \<open>dictionary\<close>

record dictionary =
  units :: "u32 list"

definition hasValue :: "dictionary \<Rightarrow> u32 \<Rightarrow> panic + bool" where
  "hasValue d index = bindP (at (units d) (unat index)) (\<lambda>u. Inr (unitHasLeaf u))"

definition dvalue :: "dictionary \<Rightarrow> u32 \<Rightarrow> panic + u32" where
  "dvalue d index =
     bindP (at (units d) (unat index)) (\<lambda>u.
       let off = unitOffset u;
           vi = (index XOR off) AND precisionMask
       in bindP (at (units d) (unat vi)) (\<lambda>v. Inr (unitValue v)))"

text \<open>\<open>followChar\<close>: \<open>Some next\<close> is \<open>(next, true)\<close>, \<open>None\<close> is \<open>(0, false)\<close>.\<close>

definition followChar :: "dictionary \<Rightarrow> u32 \<Rightarrow> u32 \<Rightarrow> panic + u32 option" where
  "followChar d label index =
     bindP (at (units d) (unat index)) (\<lambda>u.
       let off = unitOffset u;
           next = (index XOR off XOR label) AND precisionMask
       in bindP (at (units d) (unat next)) (\<lambda>v.
            if unitLabel v \<noteq> label then Inr None else Inr (Some next)))"

fun followBytes :: "dictionary \<Rightarrow> string \<Rightarrow> u32 \<Rightarrow> panic + u32 option" where
  "followBytes d [] index = Inr (Some index)"
| "followBytes d (ch # b) index =
     bindP (followChar d (of_char ch) index) (\<lambda>r.
       case r of None \<Rightarrow> Inr None | Some index' \<Rightarrow> followBytes d b index')"

subsection \<open>guide\<close>

record guide =
  gunits :: "string"

text \<open>The index is a \<open>uint32\<close>: \<open>index*2\<close> and \<open>index*2+1\<close> wrap around.\<close>

definition child :: "guide \<Rightarrow> u32 \<Rightarrow> panic + char" where
  "child g index = at (gunits g) (unat (index * 2))"

definition sibling :: "guide \<Rightarrow> u32 \<Rightarrow> panic + char" where
  "sibling g index = at (gunits g) (unat (index * 2 + 1))"

subsection \<open>completer\<close>

record wordsDawg =
  dict :: dictionary
  guide :: guide

record completer =
  Key :: string
  indexStack :: "u32 list"
  lastIndex :: u32

definition newCompleter :: completer where
  "newCompleter = \<lparr>Key = [], indexStack = [], lastIndex = 0\<rparr>"

definition start :: "completer \<Rightarrow> u32 \<Rightarrow> string \<Rightarrow> completer" where
  "start c index pfx = c\<lparr>Key := pfx, lastIndex := 0, indexStack := [index]\<rparr>"

text \<open>\<open>follow\<close> returns the next index (0 when there is no arc) and the updated completer.\<close>

definition follow :: "wordsDawg \<Rightarrow> completer \<Rightarrow> char \<Rightarrow> u32 \<Rightarrow> panic + (u32 \<times> completer)" where
  "follow w c label index =
     (case followChar (dict w) (of_char label) index of
        Inl p \<Rightarrow> Inl p
      | Inr None \<Rightarrow> Inr (0, c)
      | Inr (Some nxt) \<Rightarrow>
          Inr (nxt, c\<lparr>Key := Key c @ [label], indexStack := indexStack c @ [nxt]\<rparr>))"

text \<open>
  The loop of \<open>findTerminal\<close> has no bound in the source: on a dictionary whose guide
  leads around a cycle it never returns, which is the value \<open>None\<close> here.
\<close>

partial_function (option) findTerminal ::
  "wordsDawg \<Rightarrow> completer \<Rightarrow> u32 \<Rightarrow> (panic + (bool \<times> completer)) option" where
  "findTerminal w c index =
     (case hasValue (dict w) index of
        Inl p \<Rightarrow> Some (Inl p)
      | Inr hv \<Rightarrow>
          if hv then Some (Inr (True, c\<lparr>lastIndex := index\<rparr>))
          else (case child (guide w) index of
                  Inl p \<Rightarrow> Some (Inl p)
                | Inr label \<Rightarrow>
                    (case followChar (dict w) (of_char label) index of
                       Inl p \<Rightarrow> Some (Inl p)
                     | Inr None \<Rightarrow> Some (Inr (False, c))
                     | Inr (Some nxt) \<Rightarrow>
                         findTerminal w
                           (c\<lparr>Key := Key c @ [label], indexStack := indexStack c @ [nxt]\<rparr>) nxt)))"

text \<open>
  The inner \<open>for\<close> loop of \<open>next\<close> (climb until a sibling exists).  The result is
  \<open>None\<close> where the source returns false and \<open>Some index\<close> where it breaks out of
  the loop.  Every round pops the stack, so the loop terminates.
\<close>

function ascend :: "wordsDawg \<Rightarrow> completer \<Rightarrow> u32 \<Rightarrow> panic + (u32 option \<times> completer)" where
  "ascend w c index =
     (case sibling (guide w) index of
        Inl p \<Rightarrow> Inl p
      | Inr siblingLabel \<Rightarrow>
          if indexStack c = [] then Inl SliceBoundsOutOfRange
          else
            let c2 = c\<lparr>Key := (if length (Key c) > 0 then butlast (Key c) else Key c),
                       indexStack := butlast (indexStack c)\<rparr>
            in if length (indexStack c2) = 0 then Inr (None, c2)
               else if siblingLabel \<noteq> CHR 0x00 then
                 (case follow w c2 siblingLabel (last (indexStack c2)) of
                    Inl p \<Rightarrow> Inl p
                  | Inr (ix, c3) \<Rightarrow> if ix = 0 then Inr (None, c3) else Inr (Some ix, c3))
               else ascend w c2 (last (indexStack c2)))"
  by pat_completeness auto
termination
  by (relation "measure (\<lambda>(w, c, index). length (indexStack c))") auto

declare ascend.simps [simp del]

definition completer_next :: "wordsDawg \<Rightarrow> completer \<Rightarrow> (panic + (bool \<times> completer)) option" where
  "completer_next w c =
     (if length (indexStack c) = 0 then Some (Inr (False, c))
      else
        let index = last (indexStack c)
        in if lastIndex c \<noteq> 0 then
             (case child (guide w) index of
                Inl p \<Rightarrow> Some (Inl p)
              | Inr childLabel \<Rightarrow>
                  if childLabel \<noteq> CHR 0x00 then
                    (case follow w c childLabel index of
                       Inl p \<Rightarrow> Some (Inl p)
                     | Inr (ix, c1) \<Rightarrow>
                         if ix = 0 then Some (Inr (False, c1)) else findTerminal w c1 ix)
                  else
                    (case ascend w c index of
                       Inl p \<Rightarrow> Some (Inl p)
                     | Inr (None, c1) \<Rightarrow> Some (Inr (False, c1))
                     | Inr (Some ix, c1) \<Rightarrow> findTerminal w c1 ix))
           else findTerminal w c index)"

subsection \<open>Words index\<close>

definition dawgPayloadSep :: u32 where "dawgPayloadSep = 0x01"

record wordEntry =
  paradigmID :: u16
  formIdx :: u16

text \<open>
  \<open>base64.StdEncoding.DecodeString\<close> of the Go library, after its documentation: the
  standard alphabet, line breaks ignored, groups of four characters, \<open>=\<close> padding in
  the last group only; \<open>None\<close> is a decoding error.
\<close>

definition b64val :: "char \<Rightarrow> nat option" where
  "b64val c =
     (let n = (of_char c :: nat)
      in if 65 \<le> n \<and> n \<le> 90 then Some (n - 65)
         else if 97 \<le> n \<and> n \<le> 122 then Some (n - 71)
         else if 48 \<le> n \<and> n \<le> 57 then Some (n + 4)
         else if n = 43 then Some 62
         else if n = 47 then Some 63
         else None)"

fun decodeQuanta :: "string \<Rightarrow> string option" where
  "decodeQuanta [] = Some []"
| "decodeQuanta (a # b # c # d # rest) =
     (case b64val a of None \<Rightarrow> None | Some va \<Rightarrow>
       (case b64val b of None \<Rightarrow> None | Some vb \<Rightarrow>
          if rest = [] \<and> c = CHR ''='' \<and> d = CHR ''='' then
            Some [char_of (va * 4 + vb div 16)]
          else
            (case b64val c of None \<Rightarrow> None | Some vc \<Rightarrow>
               if rest = [] \<and> d = CHR ''='' then
                 Some [char_of (va * 4 + vb div 16), char_of (vb * 16 + vc div 4)]
               else
                 (case b64val d of None \<Rightarrow> None | Some vd \<Rightarrow>
                    (case decodeQuanta rest of None \<Rightarrow> None | Some bs \<Rightarrow>
                       Some (char_of (va * 4 + vb div 16) # char_of (vb * 16 + vc div 4)
                               # char_of (vc * 64 + vd) # bs))))))"
| "decodeQuanta _ = None"

definition DecodeString :: "string \<Rightarrow> string option" where
  "DecodeString s = decodeQuanta (filter (\<lambda>c. c \<noteq> CHR 0x0D \<and> c \<noteq> CHR 0x0A) s)"

text \<open>\<open>binary.BigEndian.Uint16\<close> on the two bytes at \<open>i\<close> and \<open>i+1\<close>.\<close>

definition Uint16 :: "string \<Rightarrow> nat \<Rightarrow> u16" where
  "Uint16 b i = push_bit 8 (of_char (b ! i)) OR of_char (b ! (i + 1))"

text \<open>
  The loop \<open>for c.next()\<close> of \<open>get\<close>.  It ends when the completer is exhausted; the
  source puts no bound on it, so it is partial like \<open>findTerminal\<close>.
\<close>

partial_function (option) get_loop ::
  "wordsDawg \<Rightarrow> completer \<Rightarrow> wordEntry list \<Rightarrow> (panic + wordEntry list) option" where
  "get_loop w c result =
     (case completer_next w c of
        None \<Rightarrow> None
      | Some (Inl p) \<Rightarrow> Some (Inl p)
      | Some (Inr (ok, c')) \<Rightarrow>
          if \<not> ok then Some (Inr result)
          else
            let key = (if length (Key c') > 0 \<and> last (Key c') = CHR 0x0A
                       then butlast (Key c') else Key c')
            in (case DecodeString key of
                  None \<Rightarrow> get_loop w c' result
                | Some decoded \<Rightarrow>
                    if length decoded < 4 then get_loop w c' result
                    else get_loop w c'
                           (result @ [\<lparr>paradigmID = Uint16 decoded 0,
                                       formIdx = Uint16 decoded 2\<rparr>])))"

declare findTerminal.simps [code]
declare get_loop.simps [code]

text \<open>\<open>get\<close>: the entries of a word; the empty list is the source's \<open>nil\<close>.\<close>

definition get :: "wordsDawg \<Rightarrow> string \<Rightarrow> (panic + wordEntry list) option" where
  "get w word =
     (case followBytes (dict w) word 0 of
        Inl p \<Rightarrow> Some (Inl p)
      | Inr None \<Rightarrow> Some (Inr [])
      | Inr (Some idx) \<Rightarrow>
          (case followChar (dict w) dawgPayloadSep idx of
             Inl p \<Rightarrow> Some (Inl p)
           | Inr None \<Rightarrow> Some (Inr [])
           | Inr (Some idx') \<Rightarrow> get_loop w (start newCompleter idx' []) []))"

section \<open>The string functions of the Go library that the analyzer calls\<close>

text \<open>
  \<open>strings.ToLower\<close>, \<open>strings.TrimSpace\<close> and \<open>strings.Fields\<close> belong to the
  Go library, not to the repository, and work on the code points of a string (Unicode
  white space, the capitals of every script, a replacement for invalid bytes).  They
  are parameters of the model: the analyzer is given the three functions, and every
  statement about it holds for whatever they compute.
\<close>

record stringsLib =
  ToLower :: "string \<Rightarrow> string"
  TrimSpace :: "string \<Rightarrow> string"
  Fields :: "string \<Rightarrow> string list"

text \<open>
  For the evaluation of the analyzer at concrete strings, the three functions on strings
  of ASCII bytes and lower-case Cyrillic letters: the white space of ASCII is tab, line
  feed, vertical tab, form feed, carriage return and space, lowering adds 32 to the
  letters \<open>A\<close> to \<open>Z\<close>, and the bytes of a lower-case Cyrillic letter are neither white
  space nor changed.  On other strings these are not the functions of the library.
\<close>

definition asciiSpace :: "char \<Rightarrow> bool" where
  "asciiSpace c = (c = CHR 0x09 \<or> c = CHR 0x0A \<or> c = CHR 0x0B \<or> c = CHR 0x0C
                    \<or> c = CHR 0x0D \<or> c = CHR '' '')"

definition asciiTrimSpace :: "string \<Rightarrow> string" where
  "asciiTrimSpace s = rev (dropWhile asciiSpace (rev (dropWhile asciiSpace s)))"

text \<open>\<open>fields_from cur s\<close>: the fields of \<open>s\<close>, the field being read so far is \<open>cur\<close>.\<close>

fun fields_from :: "string \<Rightarrow> string \<Rightarrow> string list" where
  "fields_from cur [] = (if cur = [] then [] else [cur])"
| "fields_from cur (c # s) =
     (if asciiSpace c then (if cur = [] then fields_from [] s else cur # fields_from [] s)
      else fields_from (cur @ [c]) s)"

definition asciiFields :: "string \<Rightarrow> string list" where
  "asciiFields s = fields_from [] s"

definition lowerASCII :: "char \<Rightarrow> char" where
  "lowerASCII c =
     (let n = (of_char c :: nat) in if 65 \<le> n \<and> n \<le> 90 then char_of (n + 32) else c)"

definition asciiToLower :: "string \<Rightarrow> string" where
  "asciiToLower s = map lowerASCII s"

definition asciiStrings :: stringsLib where
  "asciiStrings =
     \<lparr>ToLower = asciiToLower, TrimSpace = asciiTrimSpace, Fields = asciiFields\<rparr>"

text \<open>
  \<open>strings.HasPrefix\<close>, \<open>HasSuffix\<close>, \<open>Contains\<close>, \<open>IndexAny\<close> (for ASCII
  characters) and \<open>Join\<close> compare and copy bytes.
\<close>

definition HasPrefix :: "string \<Rightarrow> string \<Rightarrow> bool" where
  "HasPrefix s pfx = prefix pfx s"

definition HasSuffix :: "string \<Rightarrow> string \<Rightarrow> bool" where
  "HasSuffix s sfx = suffix sfx s"

fun Contains :: "string \<Rightarrow> string \<Rightarrow> bool" where
  "Contains [] substr = (substr = [])"
| "Contains (c # s) substr = (prefix substr (c # s) \<or> Contains s substr)"

text \<open>\<open>strings.IndexAny\<close>: the index of the first byte of \<open>s\<close> that is in \<open>chars\<close>, or -1.\<close>

fun IndexAny :: "string \<Rightarrow> string \<Rightarrow> int" where
  "IndexAny [] chars = -1"
| "IndexAny (c # s) chars =
     (if c \<in> set chars then 0
      else let i = IndexAny s chars in if i < 0 then -1 else i + 1)"

fun Join :: "string list \<Rightarrow> string \<Rightarrow> string" where
  "Join [] sep = []"
| "Join [x] sep = x"
| "Join (x # y # xs) sep = x @ sep @ Join (y # xs) sep"

text \<open>The slice expression \<open>s[lo:hi]\<close> on Go's \<open>int\<close> bounds.\<close>

definition slice :: "'a list \<Rightarrow> int \<Rightarrow> int \<Rightarrow> panic + 'a list" where
  "slice s lo hi =
     (if 0 \<le> lo \<and> lo \<le> hi \<and> hi \<le> int (length s)
      then Inr (take (nat (hi - lo)) (drop (nat lo) s))
      else Inl SliceBoundsOutOfRange)"

section \<open>The analyzer\<close>

record Analyzer =
  words :: wordsDawg
  paradigms :: "u16 list list"
  suffixes :: "string list"
  gramtab :: "string list"

text \<open>
  A call of the analyzer may not return (the lookup in the words index), may panic, or
  returns a value: \<open>None\<close>, \<open>Some (Inl p)\<close>, \<open>Some (Inr v)\<close>.
\<close>

definition bindR ::
  "(panic + 'a) option \<Rightarrow> ('a \<Rightarrow> (panic + 'b) option) \<Rightarrow> (panic + 'b) option" where
  "bindR m f = (case m of None \<Rightarrow> None | Some (Inl p) \<Rightarrow> Some (Inl p) | Some (Inr x) \<Rightarrow> f x)"

definition ret :: "'a \<Rightarrow> (panic + 'a) option" where
  "ret x = Some (Inr x)"

text \<open>The three paradigm prefixes: the empty one, "po" and "nai" in Cyrillic (UTF-8).\<close>

definition paradigmPrefixes :: "string list" where
  "paradigmPrefixes =
     [[],
      [CHR 0xD0, CHR 0xBF, CHR 0xD0, CHR 0xBE],
      [CHR 0xD0, CHR 0xBD, CHR 0xD0, CHR 0xB0, CHR 0xD0, CHR 0xB8]]"

text \<open>
  The keys of the map \<open>serviceWords\<close>, in the order of the source (UTF-8 bytes of the
  Russian prepositions and conjunctions); a key that is absent reads as false.
\<close>

definition serviceWordKeys :: "string list" where
  "serviceWordKeys =
    [
     [CHR 0xD0, CHR 0xB2],
     [CHR 0xD0, CHR 0xB2, CHR 0xD0, CHR 0xBE],
     [CHR 0xD0, CHR 0xBD, CHR 0xD0, CHR 0xB0],
     [CHR 0xD0, CHR 0xBF, CHR 0xD0, CHR 0xBE],
     [CHR 0xD0, CHR 0xB8, CHR 0xD0, CHR 0xB7],
     [CHR 0xD0, CHR 0xB7, CHR 0xD0, CHR 0xB0],
     [CHR 0xD0, CHR 0xBE, CHR 0xD1, CHR 0x82],
     [CHR 0xD0, CHR 0xB4, CHR 0xD0, CHR 0xBE],
     [CHR 0xD0, CHR 0xBE, CHR 0xD0, CHR 0xB1],
     [CHR 0xD0, CHR 0xBE, CHR 0xD0, CHR 0xB1, CHR 0xD0, CHR 0xBE],
     [CHR 0xD0, CHR 0xBF, CHR 0xD1, CHR 0x80, CHR 0xD0, CHR 0xB8],
     [CHR 0xD0, CHR 0xBF, CHR 0xD1, CHR 0x80, CHR 0xD0, CHR 0xBE],
     [CHR 0xD0, CHR 0xBD, CHR 0xD0, CHR 0xB0, CHR 0xD0, CHR 0xB4],
     [CHR 0xD0, CHR 0xBF, CHR 0xD0, CHR 0xBE, CHR 0xD0, CHR 0xB4],
     [CHR 0xD0, CHR 0xB1, CHR 0xD0, CHR 0xB5, CHR 0xD0, CHR 0xB7],
     [CHR 0xD0, CHR 0xB4, CHR 0xD0, CHR 0xBB, CHR 0xD1, CHR 0x8F],
     [CHR 0xD1, CHR 0x87, CHR 0xD0, CHR 0xB5, CHR 0xD1, CHR 0x80, CHR 0xD0, CHR 0xB5, CHR 0xD0, CHR 0xB7],
     [CHR 0xD0, CHR 0xBC, CHR 0xD0, CHR 0xB5, CHR 0xD0, CHR 0xB6, CHR 0xD0, CHR 0xB4, CHR 0xD1, CHR 0x83],
     [CHR 0xD1, CHR 0x81, CHR 0xD1, CHR 0x80, CHR 0xD0, CHR 0xB5, CHR 0xD0, CHR 0xB4, CHR 0xD0, CHR 0xB8],
     [CHR 0xD0, CHR 0xBE, CHR 0xD0, CHR 0xBA, CHR 0xD0, CHR 0xBE, CHR 0xD0, CHR 0xBB, CHR 0xD0, CHR 0xBE],
     [CHR 0xD0, CHR 0xBF, CHR 0xD0, CHR 0xBE, CHR 0xD1, CHR 0x81, CHR 0xD0, CHR 0xBB, CHR 0xD0, CHR 0xB5],
     [CHR 0xD0, CHR 0xBF, CHR 0xD0, CHR 0xB5, CHR 0xD1, CHR 0x80, CHR 0xD0, CHR 0xB5, CHR 0xD0, CHR 0xB4],
     [CHR 0xD0, CHR 0xB2, CHR 0xD0, CHR 0xBE, CHR 0xD0, CHR 0xBA, CHR 0xD1, CHR 0x80, CHR 0xD1, CHR 0x83, CHR 0xD0, CHR 0xB3],
     [CHR 0xD0, CHR 0xBF, CHR 0xD1, CHR 0x80, CHR 0xD0, CHR 0xBE, CHR 0xD1, CHR 0x82, CHR 0xD0, CHR 0xB8, CHR 0xD0, CHR 0xB2],
     [CHR 0xD0, CHR 0xB2, CHR 0xD0, CHR 0xBC, CHR 0xD0, CHR 0xB5, CHR 0xD1, CHR 0x81, CHR 0xD1, CHR 0x82, CHR 0xD0, CHR 0xBE],
     [CHR 0xD0, CHR 0xBA, CHR 0xD1, CHR 0x80, CHR 0xD0, CHR 0xBE, CHR 0xD0, CHR 0xBC, CHR 0xD0, CHR 0xB5],
     [CHR 0xD1, CHR 0x81],
     [CHR 0xD1, CHR 0x81, CHR 0xD0, CHR 0xBE],
     [CHR 0xD0, CHR 0xBA],
     [CHR 0xD0, CHR 0xBA, CHR 0xD0, CHR 0xBE],
     [CHR 0xD0, CHR 0xBE],
     [CHR 0xD0, CHR 0xB8],
     [CHR 0xD0, CHR 0xB8, CHR 0xD0, CHR 0xBB, CHR 0xD0, CHR 0xB8],
     [CHR 0xD0, CHR 0xBD, CHR 0xD0, CHR 0xBE],
     [CHR 0xD0, CHR 0xB0],
     [CHR 0xD0, CHR 0xBD, CHR 0xD0, CHR 0xB5],
     [CHR 0xD0, CHR 0xBD, CHR 0xD0, CHR 0xB8],
     [CHR 0xD0, CHR 0xBA, CHR 0xD0, CHR 0xB0, CHR 0xD0, CHR 0xBA],
     [CHR 0xD1, CHR 0x87, CHR 0xD1, CHR 0x82, CHR 0xD0, CHR 0xBE],
     [CHR 0xD1, CHR 0x8D, CHR 0xD1, CHR 0x82, CHR 0xD0, CHR 0xBE]
    ]"

definition serviceWords :: "string \<Rightarrow> bool" where
  "serviceWords w = (w \<in> set serviceWordKeys)"

subsection \<open>Tag parsing\<close>

definition tagPOS :: "string \<Rightarrow> string" where
  "tagPOS tag = (let i = IndexAny tag '', '' in if i \<ge> 0 then take (nat i) tag else tag)"

fun tagGrammeme :: "string \<Rightarrow> string list \<Rightarrow> string" where
  "tagGrammeme tag [] = []"
| "tagGrammeme tag (g # candidates) =
     (if Contains tag g then g else tagGrammeme tag candidates)"

definition tagMatches :: "string \<Rightarrow> string \<Rightarrow> string \<Rightarrow> string \<Rightarrow> string \<Rightarrow> bool" where
  "tagMatches tag cas number gender animacy =
     ((cas = [] \<or> Contains tag cas) \<and>
      (number = [] \<or> Contains tag number) \<and>
      (gender = [] \<or> Contains tag gender) \<and>
      (animacy = [] \<or> Contains tag animacy))"

subsection \<open>Stem extraction\<close>

text \<open>
  \<open>extractStem\<close>: \<open>Some stem\<close> is \<open>(stem, true)\<close>, \<open>None\<close> is \<open>("", false)\<close>.  The
  guard \<open>len(stem) < 0\<close> of the source is kept as it is written.
\<close>

definition extractStem ::
  "Analyzer \<Rightarrow> string \<Rightarrow> u16 list \<Rightarrow> nat \<Rightarrow> nat \<Rightarrow> panic + string option" where
  "extractStem a word para n fi =
     bindP (at para fi) (\<lambda>si.
     bindP (at (suffixes a) (unat si)) (\<lambda>sfx.
     bindP (at para (2 * n + fi)) (\<lambda>pi.
     bindP (at paradigmPrefixes (unat pi)) (\<lambda>pfx.
       if \<not> HasPrefix word pfx \<or> \<not> HasSuffix word sfx then Inr None
       else
         bindP (slice word (int (length pfx)) (int (length word) - int (length sfx))) (\<lambda>stem.
           if int (length stem) < 0 then Inr None else Inr (Some stem))))))"

subsection \<open>WordForms, Tag, inflect\<close>

text \<open>The form \<open>i\<close> of a paradigm: prefix, stem, suffix; the prefix is read first.\<close>

definition form_at :: "Analyzer \<Rightarrow> u16 list \<Rightarrow> nat \<Rightarrow> string \<Rightarrow> nat \<Rightarrow> panic + string" where
  "form_at a para n stem i =
     bindP (at para (2 * n + i)) (\<lambda>pi.
     bindP (at paradigmPrefixes (unat pi)) (\<lambda>pfx.
     bindP (at para i) (\<lambda>si.
     bindP (at (suffixes a) (unat si)) (\<lambda>sfx.
       Inr (pfx @ stem @ sfx)))))"

text \<open>The loop \<open>for i := 0; i < n; i++\<close> of \<open>WordForms\<close>, from \<open>i\<close> on.\<close>

function WordForms_loop ::
  "Analyzer \<Rightarrow> u16 list \<Rightarrow> nat \<Rightarrow> string \<Rightarrow> nat \<Rightarrow> string set \<Rightarrow> string list
     \<Rightarrow> panic + string list" where
  "WordForms_loop a para n stem i seen forms =
     (if i < n then
        (case form_at a para n stem i of
           Inl p \<Rightarrow> Inl p
         | Inr f \<Rightarrow>
             if f \<notin> seen then WordForms_loop a para n stem (i + 1) (insert f seen) (forms @ [f])
             else WordForms_loop a para n stem (i + 1) seen forms)
      else Inr forms)"
  by pat_completeness auto
termination
  by (relation "measure (\<lambda>(a, para, n, stem, i, seen, forms). n - i)") auto

declare WordForms_loop.simps [simp del]

text \<open>
  \<open>WordForms\<close>; the empty list is the source's \<open>nil\<close>.  The loop is entered only
  with a form index below N, so with N > 0, and then it returns at least one form
  (lemma \<open>WordForms_loop_nonempty\<close>): the source has no result that is empty and not
  \<open>nil\<close>, and the test \<open>forms != nil\<close> of \<open>PhraseFormsConcordant\<close> is the test
  that the list is not empty.
\<close>

definition WordForms :: "stringsLib \<Rightarrow> Analyzer \<Rightarrow> string \<Rightarrow> (panic + string list) option" where
  "WordForms L a word0 =
     (let word = ToLower L (TrimSpace L word0)
      in if word = [] then ret []
         else
           bindR (get (words a) word) (\<lambda>entries.
             if length entries = 0 then ret []
             else
               let e = entries ! 0
               in Some (bindP (at (paradigms a) (unat (paradigmID e))) (\<lambda>para.
                    let n = length para div 3
                    in if unat (formIdx e) \<ge> n then Inr []
                       else
                         bindP (extractStem a word para n (unat (formIdx e))) (\<lambda>r.
                           case r of
                             None \<Rightarrow> Inr []
                           | Some stem \<Rightarrow> WordForms_loop a para n stem 0 {} [])))))"

definition Tag :: "stringsLib \<Rightarrow> Analyzer \<Rightarrow> string \<Rightarrow> (panic + string) option" where
  "Tag L a word0 =
     (let word = ToLower L (TrimSpace L word0)
      in bindR (get (words a) word) (\<lambda>entries.
           if length entries = 0 then ret []
           else
             let e = entries ! 0
             in Some (bindP (at (paradigms a) (unat (paradigmID e))) (\<lambda>para.
                  let n = length para div 3
                  in bindP (at para (n + unat (formIdx e))) (\<lambda>tagID.
                       if unat tagID \<ge> length (gramtab a) then Inr []
                       else at (gramtab a) (unat tagID))))))"

text \<open>The loop of \<open>inflect\<close>, from \<open>i\<close> on: the first form whose tag matches.\<close>

function inflect_loop ::
  "Analyzer \<Rightarrow> u16 list \<Rightarrow> nat \<Rightarrow> string \<Rightarrow> string \<Rightarrow> string \<Rightarrow> string \<Rightarrow> string \<Rightarrow> string
     \<Rightarrow> nat \<Rightarrow> panic + string" where
  "inflect_loop a para n stem word cas number gender animacy i =
     (if i < n then
        (case at para (n + i) of
           Inl p \<Rightarrow> Inl p
         | Inr tagID \<Rightarrow>
             (case at (gramtab a) (unat tagID) of
                Inl p \<Rightarrow> Inl p
              | Inr tag \<Rightarrow>
                  if tagMatches tag cas number gender animacy then form_at a para n stem i
                  else inflect_loop a para n stem word cas number gender animacy (i + 1)))
      else Inr word)"
  by pat_completeness auto
termination
  by (relation "measure (\<lambda>(a, para, n, stem, word, cas, number, gender, animacy, i). n - i)")
    auto

declare inflect_loop.simps [simp del]

definition inflect ::
  "Analyzer \<Rightarrow> string \<Rightarrow> string \<Rightarrow> string \<Rightarrow> string \<Rightarrow> string \<Rightarrow> (panic + string) option" where
  "inflect a word cas number gender animacy =
     bindR (get (words a) word) (\<lambda>entries.
       if length entries = 0 then ret word
       else
         let e = entries ! 0
         in Some (bindP (at (paradigms a) (unat (paradigmID e))) (\<lambda>para.
              let n = length para div 3
              in bindP (extractStem a word para n (unat (formIdx e))) (\<lambda>r.
                   case r of
                     None \<Rightarrow> Inr word
                   | Some stem \<Rightarrow>
                       inflect_loop a para n stem word cas number gender animacy 0))))"

definition inflectAdj ::
  "Analyzer \<Rightarrow> string \<Rightarrow> string \<Rightarrow> string \<Rightarrow> string \<Rightarrow> string \<Rightarrow> (panic + string) option" where
  "inflectAdj a word cas number gender animacy =
     (let effectiveCas =
            (if cas = ''accs'' then
               (if number = ''plur'' then
                  (if animacy = ''inan'' then ''nomn'' else ''gent'')
                else if number = ''sing'' \<and> gender = ''masc'' then
                  (if animacy = ''inan'' then ''nomn'' else ''gent'')
                else if number = ''sing'' \<and> gender = ''neut'' then ''nomn''
                else cas)
             else cas);
          g = (if number = ''plur'' then [] else gender)
      in inflect a word effectiveCas number g [])"

subsection \<open>PhraseFormsConcordant\<close>

record wordInfo =
  pos :: string
  animacy :: string
  gender :: string

definition noInfo :: wordInfo where
  "noInfo = \<lparr>pos = [], animacy = [], gender = []\<rparr>"

text \<open>
  The first loop of \<open>PhraseFormsConcordant\<close>: the tag data of every word and the index
  of the rightmost noun or pronoun, from word \<open>i\<close> on.
\<close>

fun scanWords ::
  "stringsLib \<Rightarrow> Analyzer \<Rightarrow> string list \<Rightarrow> nat \<Rightarrow> wordInfo list \<Rightarrow> int
     \<Rightarrow> (panic + (wordInfo list \<times> int)) option" where
  "scanWords L a [] i infos headIdx = ret (infos, headIdx)"
| "scanWords L a (w # ws) i infos headIdx =
     (if serviceWords w then scanWords L a ws (i + 1) infos headIdx
      else
        bindR (Tag L a w) (\<lambda>tag.
          if tag = [] then scanWords L a ws (i + 1) infos headIdx
          else
            let p = tagPOS tag;
                infos' = infos[i := \<lparr>pos = p,
                                      animacy = tagGrammeme tag [''anim'', ''inan''],
                                      gender = tagGrammeme tag [''masc'', ''femn'', ''neut'']\<rparr>]
            in scanWords L a ws (i + 1) infos'
                 (if p = ''NOUN'' \<or> p = ''NPRO'' then int i else headIdx)))"

text \<open>Appending the strings that were not seen yet, in order.\<close>

fun addUnseen :: "string list \<Rightarrow> string set \<Rightarrow> string list \<Rightarrow> string set \<times> string list" where
  "addUnseen [] seen result = (seen, result)"
| "addUnseen (f # fs) seen result =
     (if f \<notin> seen then addUnseen fs (insert f seen) (result @ [f])
      else addUnseen fs seen result)"

text \<open>No noun found: the word forms of every word that is not a service word.\<close>

fun flattenForms ::
  "stringsLib \<Rightarrow> Analyzer \<Rightarrow> string list \<Rightarrow> string set \<Rightarrow> string list \<Rightarrow> (panic + string list) option" where
  "flattenForms L a [] seen result = ret result"
| "flattenForms L a (w # ws) seen result =
     (if serviceWords w then flattenForms L a ws seen result
      else
        bindR (WordForms L a w) (\<lambda>forms.
          case addUnseen forms seen result of
            (seen', result') \<Rightarrow> flattenForms L a ws seen' result'))"

text \<open>The slice \<open>declined\<close> for one case and number, from word \<open>i\<close> on.\<close>

fun declineWords ::
  "Analyzer \<Rightarrow> string list \<Rightarrow> wordInfo list \<Rightarrow> wordInfo \<Rightarrow> string \<Rightarrow> string \<Rightarrow> nat
     \<Rightarrow> (panic + string list) option" where
  "declineWords a [] infos head cas number i = ret []"
| "declineWords a (w # ws) infos head cas number i =
     bindR
       (if serviceWords w then ret w
        else if pos (infos ! i) = ''NOUN'' \<or> pos (infos ! i) = ''NPRO'' then
          inflect a w cas number [] []
        else if pos (infos ! i) = ''ADJF'' \<or> pos (infos ! i) = ''PRTF'' then
          inflectAdj a w cas number (gender head) (animacy head)
        else ret w)
       (\<lambda>d. bindR (declineWords a ws infos head cas number (i + 1)) (\<lambda>ds. ret (d # ds)))"

fun casesLoop ::
  "Analyzer \<Rightarrow> string list \<Rightarrow> wordInfo list \<Rightarrow> wordInfo \<Rightarrow> string \<Rightarrow> string list
     \<Rightarrow> string set \<Rightarrow> string list \<Rightarrow> (panic + (string set \<times> string list)) option" where
  "casesLoop a ws infos head number [] seen result = ret (seen, result)"
| "casesLoop a ws infos head number (cas # cases) seen result =
     bindR (declineWords a ws infos head cas number 0) (\<lambda>declined.
       let form = Join declined '' ''
       in if form \<notin> seen then
            casesLoop a ws infos head number cases (insert form seen) (result @ [form])
          else casesLoop a ws infos head number cases seen result)"

fun numbersLoop ::
  "Analyzer \<Rightarrow> string list \<Rightarrow> wordInfo list \<Rightarrow> wordInfo \<Rightarrow> string list \<Rightarrow> string list
     \<Rightarrow> string set \<Rightarrow> string list \<Rightarrow> (panic + (string set \<times> string list)) option" where
  "numbersLoop a ws infos head [] cases seen result = ret (seen, result)"
| "numbersLoop a ws infos head (number # numbers) cases seen result =
     bindR (casesLoop a ws infos head number cases seen result) (\<lambda>(seen', result').
       numbersLoop a ws infos head numbers cases seen' result')"

definition PhraseFormsConcordant ::
  "stringsLib \<Rightarrow> Analyzer \<Rightarrow> string \<Rightarrow> (panic + string list) option" where
  "PhraseFormsConcordant L a phrase0 =
     (let phrase = ToLower L (TrimSpace L phrase0);
          ws = Fields L phrase
      in if length ws = 0 then ret []
         else if length ws = 1 then
           bindR (WordForms L a (ws ! 0)) (\<lambda>forms.
             if forms \<noteq> [] then ret forms else ret [ws ! 0])
         else
           bindR (scanWords L a ws 0 (replicate (length ws) noInfo) (- 1)) (\<lambda>(infos, headIdx).
             if headIdx = - 1 then flattenForms L a ws {phrase} [phrase]
             else
               bindR (numbersLoop a ws infos (infos ! nat headIdx) [''sing'', ''plur'']
                        [''nomn'', ''gent'', ''datv'', ''accs'', ''ablt'', ''loct'']
                        {phrase} [phrase])
                 (\<lambda>(seen, result). ret result)))"

section \<open>A small dictionary\<close>

text \<open>
  A words index with the single key \<open>b\<close>, whose payload \<open>AAAAAQ==\<close> is the base64
  text of the four bytes 0, 0, 0, 1: the entry with paradigm 0 and form index 1.  Unit
  \<open>i\<close> leads to unit \<open>i + 1\<close>: over \<open>b\<close>, the separator 1, and the eight bytes of
  the payload; unit 10 has the has-leaf bit and unit 11 is its value.  No unit has the
  extension bit, so a unit is \<open>offset * 1024 + label\<close>:

  \<^item> unit 0 = 99 * 1024 (the root): 0 XOR 99 XOR 98 (\<open>b\<close>) = 1;
  \<^item> unit 1 = 2 * 1024 + 98: 1 XOR 2 XOR 1 (the separator) = 2;
  \<^item> unit 2 = 64 * 1024 + 1: 2 XOR 64 XOR 65 (\<open>A\<close>) = 3;
  \<^item> unit 3 = 70 * 1024 + 65: 3 XOR 70 XOR 65 = 4;
  \<^item> unit 4 = 64 * 1024 + 65: 4 XOR 64 XOR 65 = 5;
  \<^item> unit 5 = 66 * 1024 + 65: 5 XOR 66 XOR 65 = 6;
  \<^item> unit 6 = 64 * 1024 + 65: 6 XOR 64 XOR 65 = 7;
  \<^item> unit 7 = 94 * 1024 + 65: 7 XOR 94 XOR 81 (\<open>Q\<close>) = 8;
  \<^item> unit 8 = 60 * 1024 + 81: 8 XOR 60 XOR 61 (\<open>=\<close>) = 9;
  \<^item> unit 9 = 62 * 1024 + 61: 9 XOR 62 XOR 61 = 10;
  \<^item> unit 10 = 1 * 1024 + 256 + 61: has-leaf, its value is at 10 XOR 1 = 11;
  \<^item> unit 11 = 2^31: a leaf with the value 0.

  The guide gives the first child of every unit on this path (\<open>b\<close>, 1, five times
  \<open>A\<close>, \<open>Q\<close>, twice \<open>=\<close>) and no sibling.
\<close>

definition exUnits :: "u32 list" where
  "exUnits =
     [101376, 2146, 65537, 71745, 65601, 67649, 65601, 96321, 61521, 63549, 1341, 0x80000000]"

definition exGuide :: string where
  "exGuide =
     [CHR ''b'', CHR 0x00, CHR 0x01, CHR 0x00, CHR ''A'', CHR 0x00, CHR ''A'', CHR 0x00,
      CHR ''A'', CHR 0x00, CHR ''A'', CHR 0x00, CHR ''A'', CHR 0x00, CHR ''Q'', CHR 0x00,
      CHR ''='', CHR 0x00, CHR ''='', CHR 0x00, CHR 0x00, CHR 0x00, CHR 0x00, CHR 0x00]"

definition exWords :: wordsDawg where
  "exWords = \<lparr>dict = \<lparr>units = exUnits\<rparr>, guide = \<lparr>gunits = exGuide\<rparr>\<rparr>"

text \<open>
  One paradigm of two forms, with suffixes \<open>a\<close> and \<open>b\<close>, both without prefix: the
  word \<open>b\<close> is form 1 of the lexeme with the forms \<open>a\<close> and \<open>b\<close>.
\<close>

definition exAnalyzer :: Analyzer where
  "exAnalyzer =
     \<lparr>words = exWords,
      paradigms = [[0, 1, 0, 1, 0, 0]],
      suffixes = [''a'', ''b''],
      gramtab = [''NOUN,inan,masc sing,nomn'', ''NOUN,inan,masc sing,gent'']\<rparr>"

text \<open>
  A paradigm of one form (suffix \<open>b\<close>, tag 0, prefix 1) under the same index: the
  form index 1 of the entry of \<open>b\<close> is not a form of it.
\<close>

definition exShort :: Analyzer where
  "exShort =
     \<lparr>words = exWords,
      paradigms = [[0, 0, 1]],
      suffixes = [''b''],
      gramtab = [''NOUN,inan,masc sing,nomn'', ''ADJF,Qual masc,sing,nomn'']\<rparr>"

text \<open>Three forms with the suffixes \<open>a\<close>, \<open>b\<close>, \<open>a\<close>: the forms 0 and 2 coincide.\<close>

definition exDup :: Analyzer where
  "exDup = exAnalyzer\<lparr>paradigms := [[0, 1, 0, 0, 1, 0, 0, 0, 0]]\<rparr>"

text \<open>The tag data of the word \<open>b\<close> in \<open>exAnalyzer\<close>.\<close>

definition exInfo :: wordInfo where
  "exInfo = \<lparr>pos = ''NOUN'', animacy = ''inan'', gender = ''masc''\<rparr>"

text \<open>
  The word "po" (Cyrillic, four bytes) and a paradigm whose form 0 has the prefix "po"
  and the suffix "o" (the last two bytes of the word).
\<close>

definition po :: string where
  "po = [CHR 0xD0, CHR 0xBF, CHR 0xD0, CHR 0xBE]"

definition exOverlap :: Analyzer where
  "exOverlap =
     \<lparr>words = exWords,
      paradigms = [[0, 0, 1]],
      suffixes = [[CHR 0xD0, CHR 0xBE]],
      gramtab = [''NOUN,inan,masc sing,nomn'']\<rparr>"

section \<open>Definitions after the words of the specification\<close>

text \<open>
  The effective case of an adjective (specification, section 4.7.1), one line per
  bullet: accusative plural, accusative singular masculine, neuter, feminine; every
  other request keeps its case.
\<close>

definition effective_case :: "string \<Rightarrow> string \<Rightarrow> string \<Rightarrow> string \<Rightarrow> string" where
  "effective_case cas num gen ani =
     (if cas = ''accs'' \<and> num = ''plur'' then (if ani = ''inan'' then ''nomn'' else ''gent'')
      else if cas = ''accs'' \<and> num = ''sing'' \<and> gen = ''masc'' then
        (if ani = ''inan'' then ''nomn'' else ''gent'')
      else if cas = ''accs'' \<and> num = ''sing'' \<and> gen = ''neut'' then ''nomn''
      else if cas = ''accs'' \<and> num = ''sing'' \<and> gen = ''femn'' then ''accs''
      else cas)"

text \<open>
  De-duplication that preserves the first-seen order: every element stays at its first
  occurrence and is dropped from the rest.
\<close>

fun first_seen :: "'a list \<Rightarrow> 'a list" where
  "first_seen [] = []"
| "first_seen (x # xs) = x # filter (\<lambda>y. y \<noteq> x) (first_seen xs)"

text \<open>
  The invariants of the data model (specification, section 3) that the queries rely on,
  for one paradigm, for one entry of a word, and for the lookup of a word: every suffix,
  tag and prefix index of the paradigm is within its table; the paradigm index is within
  the paradigm table, the form index is below N, and the affixes of that form, when both
  match the word, do not overlap in it; the lookup returns, and its first entry, if any,
  is in range.
\<close>

definition paradigmInRange :: "Analyzer \<Rightarrow> u16 list \<Rightarrow> bool" where
  "paradigmInRange a para =
     (let n = length para div 3
      in list_all (\<lambda>i. unat (para ! i) < length (suffixes a) \<and>
                        unat (para ! (n + i)) < length (gramtab a) \<and>
                        unat (para ! (2 * n + i)) < length paradigmPrefixes) [0..<n])"



text \<open>
  The lookups of \<open>PhraseFormsConcordant\<close> on a phrase, all in range.  A single token
  is given to \<open>WordForms\<close>, which looks its normalized form up unless that is empty.
  Of several tokens, \<open>Tag\<close> looks up the normalized form of every token that is not a
  service word, and \<open>WordForms\<close> the same; when the scan finds a head, \<open>inflect\<close>
  looks up the token itself for every token that is not a service word and that the
  scan tagged NOUN, NPRO, ADJF or PRTF.
\<close>

definition declined :: "string \<Rightarrow> bool" where
  "declined p = (p = ''NOUN'' \<or> p = ''NPRO'' \<or> p = ''ADJF'' \<or> p = ''PRTF'')"


section \<open>The offset of a unit\<close>

lemma and_push_bit_1:
  "(a :: 'a::len word) AND push_bit n 1 = (if bit a n then push_bit n 1 else 0)"
  by (rule bit_eqI) (auto simp: bit_simps)

lemma and_extensionBit: "u AND extensionBit = (if bit u 9 then push_bit 9 1 else 0)"
  unfolding extensionBit_def by (rule and_push_bit_1)

lemma and_precisionMask: "x AND precisionMask = x"
proof -
  have "(mask 32 :: u32) = 0xFFFFFFFF"
    by (simp add: mask_eq_exp_minus_1)
  moreover have "x AND mask 32 = x"
    by (rule bit_eqI) (auto simp: bit_simps dest: bit_imp_le_length)
  ultimately show ?thesis
    unfolding precisionMask_def by simp
qed

lemma unitOffset_eq: "unitOffset u = push_bit (if bit u 9 then 8 else 0) (drop_bit 10 u)"
  by (simp add: unitOffset_def and_extensionBit and_precisionMask)

lemma at_Inr: "at xs i = Inr x \<longleftrightarrow> i < length xs \<and> x = xs ! i"
  by (auto simp: at_def)

lemma at_Inl: "at xs i = Inl p \<longleftrightarrow> \<not> i < length xs \<and> p = IndexOutOfRange"
  by (auto simp: at_def)

lemma bindP_Inr: "bindP m f = Inr y \<longleftrightarrow> (\<exists>x. m = Inr x \<and> f x = Inr y)"
  by (cases m) (simp_all add: bindP_def)

lemma bindP_simps [simp]: "bindP (Inl p) f = Inl p" "bindP (Inr x) f = f x"
  by (simp_all add: bindP_def)

text \<open>
  C1, as the specification states it, fails: with the extension bit set, \<open>unitOffset\<close>
  shifts the payload by eight bits, not by one.  At the unit \<open>0x600\<close> (payload 1,
  extension bit set) the code gives 256 and the formula of the specification gives 2.
\<close>

theorem unitOffset_spec_counterexample: "unitOffset 0x600 = 256 \<and> offset_spec 0x600 = 2"
  by (simp add: unitOffset_def offset_spec_def extensionBit_def precisionMask_def)

text \<open>
  C1, amended: for every unit \<open>u\<close> the decoded offset is the payload \<open>u >> 10\<close>
  shifted left by 8 when the extension bit (bit 9) is set and by 0 otherwise, within 32
  bits; a transition of \<open>followChar\<close> leads to \<open>index XOR offset XOR label\<close> and
  \<open>value\<close> reads the unit at \<open>index XOR offset\<close>, with this offset of the unit
  at \<open>index\<close>.
\<close>

theorem unitOffset_shift_by_extension:
  "unitOffset u = push_bit (if bit u 9 then 8 else 0) (drop_bit 10 u) \<and>
   (followChar d label index = Inr (Some nxt) \<longrightarrow>
      nxt = index XOR unitOffset (units d ! unat index) XOR label) \<and>
   (dvalue d index' = Inr v \<longrightarrow>
      v = unitValue (units d ! unat (index' XOR unitOffset (units d ! unat index'))))"
proof (intro conjI impI)
  show "unitOffset u = push_bit (if bit u 9 then 8 else 0) (drop_bit 10 u)"
    by (rule unitOffset_eq)
next
  assume "followChar d label index = Inr (Some nxt)"
  then show "nxt = index XOR unitOffset (units d ! unat index) XOR label"
    by (auto simp: followChar_def bindP_Inr at_Inr Let_def and_precisionMask
          split: if_splits)
next
  assume "dvalue d index' = Inr v"
  then show "v = unitValue (units d ! unat (index' XOR unitOffset (units d ! unat index')))"
    by (auto simp: dvalue_def bindP_Inr at_Inr Let_def and_precisionMask)
qed

lemma followChar_exWords_b: "followChar (dict exWords) 98 0 = Inr (Some 1)"
  by (simp add: followChar_def exWords_def exUnits_def at_def unitOffset_def unitLabel_def
        extensionBit_def precisionMask_def isLeafBit_def)

lemma dvalue_exWords_leaf: "dvalue (dict exWords) 10 = Inr 0"
  by (simp add: dvalue_def exWords_def exUnits_def at_def unitOffset_def unitValue_def
        extensionBit_def precisionMask_def isLeafBit_def)

theorem unitOffset_shift_by_extension_witness:
  "unitOffset 0x600 = push_bit 8 (drop_bit 10 0x600) \<and>
   followChar (dict exWords) 98 0 = Inr (Some 1) \<and>
   (1 :: u32) = 0 XOR unitOffset (units (dict exWords) ! unat (0 :: u32)) XOR 98 \<and>
   dvalue (dict exWords) 10 = Inr 0 \<and>
   (0 :: u32) =
     unitValue (units (dict exWords) !
       unat (10 XOR unitOffset (units (dict exWords) ! unat (10 :: u32))))"
  using unitOffset_shift_by_extension
          [of "0x600" "dict exWords" 98 0 1 10 0]
        followChar_exWords_b dvalue_exWords_leaf
  by simp

section \<open>Evaluation on the small dictionary\<close>

lemma bindR_simps [simp]:
  "bindR None f = None"
  "bindR (Some (Inl p)) f = Some (Inl p)"
  "bindR (Some (Inr x)) f = f x"
  by (simp_all add: bindR_def)

lemma get_exWords_b: "get exWords ''b'' = Some (Inr [\<lparr>paradigmID = 0, formIdx = 1\<rparr>])"
  by code_simp

lemma get_exWords_a: "get exWords ''a'' = Some (Inr [])"
  by code_simp


lemma normalize_b: "ToLower asciiStrings (TrimSpace asciiStrings ''b'') = ''b''"
  by (simp add: asciiStrings_def asciiTrimSpace_def asciiSpace_def asciiToLower_def lowerASCII_def)

lemma WordForms_exAnalyzer_b: "WordForms asciiStrings exAnalyzer ''b'' = Some (Inr [''a'', ''b''])"
  by (simp add: WordForms_def normalize_b exAnalyzer_def get_exWords_b ret_def at_def
        extractStem_def paradigmPrefixes_def HasPrefix_def HasSuffix_def slice_def form_at_def
        WordForms_loop.simps)

section \<open>Stem extraction\<close>

text \<open>The guard \<open>len(stem) < 0\<close> never fires: a slice that is taken has a length.\<close>

lemma slice_length_nonneg: "slice s lo hi = Inr t \<Longrightarrow> \<not> int (length t) < 0"
  by simp

text \<open>
  C3 fails on the code: passing both affix checks does not give
  \<open>len(prefix) + len(suffix) <= len(word)\<close>.  The word "po" begins with the prefix
  "po" and ends with the suffix "o", the two overlap (4 + 2 > 4), and the slice
  expression \<open>word[4:2]\<close> panics before the guard \<open>len(stem) < 0\<close> is reached.
\<close>

theorem extractStem_overlap_panics:
  "HasPrefix po (paradigmPrefixes ! 1) \<and> HasSuffix po (suffixes exOverlap ! 0) \<and>
   length (paradigmPrefixes ! 1) + length (suffixes exOverlap ! 0) > length po \<and>
   extractStem exOverlap po [0, 0, 1] 1 0 = Inl SliceBoundsOutOfRange"
  by (simp add: po_def exOverlap_def at_def extractStem_def paradigmPrefixes_def
        HasPrefix_def HasSuffix_def slice_def suffix_def)

theorem extractStem_overlap_panics_witness:
  "extractStem exOverlap po [0, 0, 1] 1 0 \<noteq> Inr None \<and>
   (\<forall>stem. extractStem exOverlap po [0, 0, 1] 1 0 \<noteq> Inr (Some stem))"
  using extractStem_overlap_panics by simp

section \<open>Tag and the form index\<close>

text \<open>
  C4 fails on the code: \<open>Tag\<close> has no check of the form index.  In \<open>exShort\<close> the
  paradigm has one form (N = 1) and the entry of \<open>b\<close> has form index 1: \<open>WordForms\<close>
  returns nothing, but \<open>Tag\<close> reads \<open>para[2]\<close>, the prefix index of form 0, and
  returns the gramtab string at that index; with an empty paradigm the same read panics.
\<close>

theorem Tag_without_form_index_check:
  "WordForms asciiStrings exShort ''b'' = Some (Inr []) \<and>
   Tag asciiStrings exShort ''b'' = Some (Inr ''ADJF,Qual masc,sing,nomn'') \<and>
   Tag asciiStrings (exShort\<lparr>paradigms := [[]]\<rparr>) ''b'' = Some (Inl IndexOutOfRange)"
  by (simp add: Tag_def WordForms_def normalize_b exShort_def get_exWords_b ret_def at_def)

theorem Tag_without_form_index_check_witness: "Tag asciiStrings exShort ''b'' \<noteq> Some (Inr [])"
  using Tag_without_form_index_check by simp

section \<open>Loops over a paradigm that is in range\<close>

lemma upt_0_2: "[0..<2] = [0, 1 :: nat]"
  by code_simp

lemma paradigmInRange_nth:
  assumes "paradigmInRange a para" and "i < length para div 3"
  shows "unat (para ! i) < length (suffixes a)"
    and "unat (para ! (length para div 3 + i)) < length (gramtab a)"
    and "unat (para ! (2 * (length para div 3) + i)) < length paradigmPrefixes"
  using assms by (auto simp: paradigmInRange_def Let_def list_all_iff)

lemma form_at_total:
  assumes "paradigmInRange a para" and "i < length para div 3"
  shows "\<exists>f. form_at a para (length para div 3) stem i = Inr f"
proof -
  from assms(2) have "i < length para" "2 * (length para div 3) + i < length para"
    by linarith+
  with paradigmInRange_nth[OF assms] show ?thesis
    by (simp add: form_at_def at_def)
qed

lemma WordForms_loop_total:
  assumes "paradigmInRange a para"
  shows "\<exists>r. WordForms_loop a para (length para div 3) stem i seen forms = Inr r"
proof (induction "length para div 3 - i" arbitrary: i seen forms)
  case 0
  then show ?case by (subst WordForms_loop.simps) simp
next
  case (Suc m)
  then have lt: "i < length para div 3" and m: "m = length para div 3 - (i + 1)" by simp_all
  from form_at_total[OF assms lt] obtain f where
    f: "form_at a para (length para div 3) stem i = Inr f" ..
  from Suc.hyps(1)[OF m] lt f show ?case
    by (subst WordForms_loop.simps) simp
qed


section \<open>Inflection\<close>

text \<open>
  C7: \<open>inflectAdj\<close> maps a requested accusative to the effective case of the
  specification: in the plural, nominative for an inanimate head and genitive otherwise;
  in the singular masculine the same; in the singular neuter nominative; in the singular
  feminine the accusative stays.  In the plural the gender passed to \<open>inflect\<close> is
  empty, and the animacy passed to \<open>inflect\<close> is always empty.
\<close>

theorem inflectAdj_accusative_rule:
  "inflectAdj a w ''accs'' ''plur'' gen ani =
     inflect a w (if ani = ''inan'' then ''nomn'' else ''gent'') ''plur'' [] [] \<and>
   inflectAdj a w ''accs'' ''sing'' ''masc'' ani =
     inflect a w (if ani = ''inan'' then ''nomn'' else ''gent'') ''sing'' ''masc'' [] \<and>
   inflectAdj a w ''accs'' ''sing'' ''neut'' ani = inflect a w ''nomn'' ''sing'' ''neut'' [] \<and>
   inflectAdj a w ''accs'' ''sing'' ''femn'' ani = inflect a w ''accs'' ''sing'' ''femn'' [] \<and>
   inflectAdj a w cas ''plur'' gen ani = inflect a w (effective_case cas ''plur'' gen ani) ''plur'' [] [] \<and>
   inflectAdj a w cas num gen ani =
     inflect a w (effective_case cas num gen ani) num (if num = ''plur'' then [] else gen) []"
  by (simp add: inflectAdj_def effective_case_def)

lemma bindR_Inr: "bindR m f = Some (Inr y) \<longleftrightarrow> (\<exists>x. m = Some (Inr x) \<and> f x = Some (Inr y))"
  by (auto simp: bindR_def split: option.splits sum.splits)

lemma inflect_loop_find:
  "inflect_loop a para n stem word cas num gen ani i = Inr r \<Longrightarrow>
   (case find (\<lambda>j. tagMatches (gramtab a ! unat (para ! (n + j))) cas num gen ani) [i..<n] of
      None \<Rightarrow> r = word
    | Some j \<Rightarrow> form_at a para n stem j = Inr r)"
proof (induction a para n stem word cas num gen ani i rule: inflect_loop.induct)
  case (1 a para n stem word cas num gen ani i)
  show ?case
  proof (cases "i < n")
    case False
    with "1.prems" show ?thesis by (simp add: inflect_loop.simps)
  next
    case True
    note unf = inflect_loop.simps[of a para n stem word cas num gen ani i]
    from True have upt: "[i..<n] = i # [i + 1..<n]" by (simp add: upt_conv_Cons)
    from True "1.prems" obtain tagID tag where
      t: "at para (n + i) = Inr tagID" "at (gramtab a) (unat tagID) = Inr tag"
      by (auto simp: unf split: sum.splits)
    then have tag: "tag = gramtab a ! unat (para ! (n + i))"
      by (auto simp: at_Inr)
    show ?thesis
    proof (cases "tagMatches tag cas num gen ani")
      case m: True
      with True t "1.prems" tag show ?thesis by (simp add: upt unf)
    next
      case m: False
      with True t "1.prems" have "inflect_loop a para n stem word cas num gen ani (i + 1) = Inr r"
        by (simp add: unf)
      from "1.IH"[OF True t(1) t(2) m this] m tag show ?thesis
        by (simp add: upt)
    qed
  qed
qed

lemma inflect_loop_find_eq:
  assumes "\<forall>j < length para div 3. unat (para ! (length para div 3 + j)) < length (gramtab a)"
  shows "inflect_loop a para (length para div 3) stem word cas num gen ani i =
     (case find (\<lambda>j. tagMatches (gramtab a ! unat (para ! (length para div 3 + j)))
                       cas num gen ani) [i..<length para div 3] of
        None \<Rightarrow> Inr word
      | Some k \<Rightarrow> form_at a para (length para div 3) stem k)"
proof (induction "length para div 3 - i" arbitrary: i)
  case 0
  then show ?case by (subst inflect_loop.simps) simp
next
  case (Suc m)
  then have lt: "i < length para div 3" and m: "m = length para div 3 - (i + 1)" by simp_all
  from lt have upt: "[i..<length para div 3] = i # [i + 1..<length para div 3]"
    by (simp add: upt_conv_Cons)
  from lt have "length para div 3 + i < length para" by linarith
  with assms lt have
    t: "at para (length para div 3 + i) = Inr (para ! (length para div 3 + i))"
       "at (gramtab a) (unat (para ! (length para div 3 + i)))
          = Inr (gramtab a ! unat (para ! (length para div 3 + i)))"
    by (simp_all add: at_def)
  from Suc.hyps(1)[OF m] lt t show ?case
    by (subst inflect_loop.simps) (simp add: upt)
qed

lemma inflect_unfold:
  assumes "get (words a) word = Some (Inr es)" and "es \<noteq> []"
    and "at (paradigms a) (unat (paradigmID (es ! 0))) = Inr para"
    and "extractStem a word para (length para div 3) (unat (formIdx (es ! 0))) = Inr st"
  shows "inflect a word cas num gen ani =
     Some (case st of
             None \<Rightarrow> Inr word
           | Some stem \<Rightarrow> inflect_loop a para (length para div 3) stem word cas num gen ani 0)"
  using assms by (simp add: inflect_def Let_def)

text \<open>
  C8: on a word without entry \<open>inflect\<close> returns the word.  With a first entry and its
  paradigm, it returns the word if the stem extraction fails; otherwise every result of
  \<open>inflect\<close> is the form at the first index \<open>i\<close> of \<open>0..N\<close> whose tag satisfies
  \<open>tagMatches\<close>, or the word itself if there is no such index, and, the tag indices
  of the paradigm being within gramtab, \<open>inflect\<close> does return this.  A constraint is
  satisfied by a tag if it is empty or contained in the tag.
\<close>

theorem inflect_first_match:
  assumes "get (words a) word = Some (Inr es)"
  shows "(es = [] \<longrightarrow> inflect a word cas num gen ani = Some (Inr word)) \<and>
     (\<forall>para. es \<noteq> [] \<and> at (paradigms a) (unat (paradigmID (es ! 0))) = Inr para \<longrightarrow>
        (extractStem a word para (length para div 3) (unat (formIdx (es ! 0))) = Inr None \<longrightarrow>
           inflect a word cas num gen ani = Some (Inr word)) \<and>
        (\<forall>stem. extractStem a word para (length para div 3) (unat (formIdx (es ! 0)))
                  = Inr (Some stem) \<longrightarrow>
           (\<forall>r. inflect a word cas num gen ani = Some (Inr r) \<longrightarrow>
              (case find (\<lambda>i. tagMatches (gramtab a ! unat (para ! (length para div 3 + i)))
                                cas num gen ani) [0..<length para div 3] of
                 None \<Rightarrow> r = word
               | Some i \<Rightarrow> form_at a para (length para div 3) stem i = Inr r)) \<and>
           ((\<forall>j < length para div 3.
                unat (para ! (length para div 3 + j)) < length (gramtab a)) \<longrightarrow>
              inflect a word cas num gen ani =
                Some (case find (\<lambda>i. tagMatches (gramtab a ! unat (para ! (length para div 3 + i)))
                                       cas num gen ani) [0..<length para div 3] of
                        None \<Rightarrow> Inr word
                      | Some i \<Rightarrow> form_at a para (length para div 3) stem i)))) \<and>
     (\<forall>tag. tagMatches tag cas num gen ani \<longleftrightarrow>
        (\<forall>g \<in> set [cas, num, gen, ani]. g = [] \<or> Contains tag g))"
proof (intro conjI allI impI)
  assume "es = []"
  with assms show "inflect a word cas num gen ani = Some (Inr word)"
    by (simp add: inflect_def ret_def)
next
  fix para
  assume h: "es \<noteq> [] \<and> at (paradigms a) (unat (paradigmID (es ! 0))) = Inr para"
    and st: "extractStem a word para (length para div 3) (unat (formIdx (es ! 0))) = Inr None"
  from h have "es \<noteq> []" "at (paradigms a) (unat (paradigmID (es ! 0))) = Inr para" by simp_all
  from inflect_unfold[OF assms this st]
  show "inflect a word cas num gen ani = Some (Inr word)" by simp
next
  fix para stem r
  assume h: "es \<noteq> [] \<and> at (paradigms a) (unat (paradigmID (es ! 0))) = Inr para"
    and st: "extractStem a word para (length para div 3) (unat (formIdx (es ! 0)))
               = Inr (Some stem)"
    and r: "inflect a word cas num gen ani = Some (Inr r)"
  from h have "es \<noteq> []" "at (paradigms a) (unat (paradigmID (es ! 0))) = Inr para" by simp_all
  from inflect_unfold[OF assms this st] r
  have "inflect_loop a para (length para div 3) stem word cas num gen ani 0 = Inr r" by simp
  then show "case find (\<lambda>i. tagMatches (gramtab a ! unat (para ! (length para div 3 + i)))
                            cas num gen ani) [0..<length para div 3] of
               None \<Rightarrow> r = word
             | Some i \<Rightarrow> form_at a para (length para div 3) stem i = Inr r"
    by (rule inflect_loop_find)
next
  fix para stem
  assume h: "es \<noteq> [] \<and> at (paradigms a) (unat (paradigmID (es ! 0))) = Inr para"
    and st: "extractStem a word para (length para div 3) (unat (formIdx (es ! 0)))
               = Inr (Some stem)"
    and g: "\<forall>j < length para div 3. unat (para ! (length para div 3 + j)) < length (gramtab a)"
  from h have "es \<noteq> []" "at (paradigms a) (unat (paradigmID (es ! 0))) = Inr para" by simp_all
  from inflect_unfold[OF assms this st] inflect_loop_find_eq[OF g]
  show "inflect a word cas num gen ani =
          Some (case find (\<lambda>i. tagMatches (gramtab a ! unat (para ! (length para div 3 + i)))
                                 cas num gen ani) [0..<length para div 3] of
                  None \<Rightarrow> Inr word
                | Some i \<Rightarrow> form_at a para (length para div 3) stem i)"
    by simp
next
  fix tag
  show "tagMatches tag cas num gen ani \<longleftrightarrow>
          (\<forall>g \<in> set [cas, num, gen, ani]. g = [] \<or> Contains tag g)"
    by (simp add: tagMatches_def)
qed

lemma inflect_exAnalyzer_b_nomn: "inflect exAnalyzer ''b'' ''nomn'' ''sing'' [] [] = Some (Inr ''a'')"
  by (simp add: inflect_def exAnalyzer_def get_exWords_b ret_def at_def
        extractStem_def paradigmPrefixes_def HasPrefix_def HasSuffix_def slice_def form_at_def
        inflect_loop.simps tagMatches_def)

lemma extractStem_exAnalyzer_b: "extractStem exAnalyzer ''b'' [0, 1, 0, 1, 0, 0] 2 1 = Inr (Some [])"
  by (simp add: exAnalyzer_def at_def extractStem_def paradigmPrefixes_def HasPrefix_def
        HasSuffix_def slice_def)

theorem inflect_first_match_witness:
  "get (words exAnalyzer) ''b'' = Some (Inr [\<lparr>paradigmID = 0, formIdx = 1\<rparr>]) \<and>
   at (paradigms exAnalyzer) 0 = Inr [0, 1, 0, 1, 0, 0] \<and>
   extractStem exAnalyzer ''b'' [0, 1, 0, 1, 0, 0] 2 1 = Inr (Some []) \<and>
   find (\<lambda>i. tagMatches (gramtab exAnalyzer ! unat ([0, 1, 0, 1, 0, 0 :: u16] ! (2 + i)))
                ''nomn'' ''sing'' [] []) [0..<2] = Some 0 \<and>
   form_at exAnalyzer [0, 1, 0, 1, 0, 0] 2 [] 0 = Inr ''a'' \<and>
   inflect exAnalyzer ''b'' ''nomn'' ''sing'' [] [] = Some (Inr ''a'')"
proof -
  have g: "get (words exAnalyzer) ''b'' = Some (Inr [\<lparr>paradigmID = 0, formIdx = 1\<rparr>])"
    by (simp add: exAnalyzer_def get_exWords_b)
  have p: "at (paradigms exAnalyzer) 0 = Inr [0, 1, 0, 1, 0, 0]"
    by (simp add: exAnalyzer_def at_def)
  have f: "find (\<lambda>i. tagMatches (gramtab exAnalyzer ! unat ([0, 1, 0, 1, 0, 0 :: u16] ! (2 + i)))
                ''nomn'' ''sing'' [] []) [0..<2] = Some 0"
    by (simp add: exAnalyzer_def upt_conv_Cons tagMatches_def)
  have fa: "form_at exAnalyzer [0, 1, 0, 1, 0, 0] 2 [] 0 = Inr ''a''"
    by (simp add: exAnalyzer_def form_at_def at_def paradigmPrefixes_def)
  from inflect_first_match [OF g, of "''nomn''" "''sing''" "[]" "[]"]
       g p f fa extractStem_exAnalyzer_b inflect_exAnalyzer_b_nomn
  show ?thesis by simp
qed

section \<open>Word forms\<close>

lemma set_first_seen: "set (first_seen xs) = set xs"
  by (induction xs) auto

lemma distinct_first_seen: "distinct (first_seen xs)"
  by (induction xs) auto

lemma first_seen_Nil: "first_seen fs = [] \<longleftrightarrow> fs = []"
  by (cases fs) simp_all

lemma affix_roundtrip:
  assumes "prefix p w" and "suffix s w" and "length p + length s \<le> length w"
  shows "p @ take (length w - length s - length p) (drop (length p) w) @ s = w"
proof -
  from assms(2) obtain ys where w: "w = ys @ s"
    by (auto simp: suffix_def)
  from assms(1) obtain zs where z: "w = p @ zs"
    by (auto simp: prefix_def)
  from w assms(3) have len: "length p \<le> length ys" by simp
  from w z have "ys @ s = p @ zs" by simp
  then have "take (length p) (ys @ s) = p" by simp
  with len have "take (length p) ys = p" by simp
  then have "ys = p @ drop (length p) ys"
    by (metis append_take_drop_id)
  then obtain ms where "ys = p @ ms" ..
  with w show ?thesis by simp
qed

lemma extractStem_roundtrip:
  assumes "extractStem a word para n fi = Inr (Some stem)"
  shows "form_at a para n stem fi = Inr word"
proof -
  from assms obtain si sfx pi pfx where
    a: "at para fi = Inr si" "at (suffixes a) (unat si) = Inr sfx"
       "at para (2 * n + fi) = Inr pi" "at paradigmPrefixes (unat pi) = Inr pfx" and
    r: "(if \<not> HasPrefix word pfx \<or> \<not> HasSuffix word sfx then Inr None
         else bindP (slice word (int (length pfx)) (int (length word) - int (length sfx)))
                (\<lambda>stem. if int (length stem) < 0 then Inr None else Inr (Some stem)))
        = Inr (Some stem)"
    unfolding extractStem_def bindP_Inr by blast
  from r have ps: "prefix pfx word" "suffix sfx word"
    by (auto simp: HasPrefix_def HasSuffix_def split: if_splits)
  with r have "slice word (int (length pfx)) (int (length word) - int (length sfx)) = Inr stem"
    by (auto simp: HasPrefix_def HasSuffix_def bindP_Inr split: if_splits)
  then have le: "length pfx + length sfx \<le> length word"
    and stem: "stem = take (length word - length sfx - length pfx) (drop (length pfx) word)"
    by (auto simp: slice_def nat_diff_distrib' split: if_splits)
  from affix_roundtrip[OF ps le] stem have "pfx @ stem @ sfx = word" by simp
  with a show ?thesis by (simp add: form_at_def)
qed

lemma WordForms_loop_first_seen:
  "WordForms_loop a para n stem i (set forms) forms = Inr r \<Longrightarrow>
   \<exists>fs. length fs = n - i \<and> (\<forall>k < n - i. form_at a para n stem (i + k) = Inr (fs ! k)) \<and>
        r = forms @ filter (\<lambda>f. f \<notin> set forms) (first_seen fs)"
proof (induction "n - i" arbitrary: i forms)
  case 0
  then show ?case
    by (subst (asm) WordForms_loop.simps) simp
next
  case (Suc m)
  then have lt: "i < n" and m: "m = n - (i + 1)" by simp_all
  from Suc.prems lt obtain f where f: "form_at a para n stem i = Inr f"
    by (subst (asm) WordForms_loop.simps) (auto split: sum.splits)
  let ?forms' = "if f \<notin> set forms then forms @ [f] else forms"
  from Suc.prems lt f have "WordForms_loop a para n stem (i + 1) (set ?forms') ?forms' = Inr r"
    by (subst (asm) WordForms_loop.simps) (auto split: if_splits simp: insert_absorb)
  from Suc.hyps(1)[OF m this] obtain fs where
    fs: "length fs = n - (i + 1)"
        "\<forall>k < n - (i + 1). form_at a para n stem (i + 1 + k) = Inr (fs ! k)"
        "r = ?forms' @ filter (\<lambda>g. g \<notin> set ?forms') (first_seen fs)"
    by blast
  have "length (f # fs) = n - i"
    using fs(1) lt by simp
  moreover have "\<forall>k < n - i. form_at a para n stem (i + k) = Inr ((f # fs) ! k)"
  proof (intro allI impI)
    fix k assume "k < n - i"
    then show "form_at a para n stem (i + k) = Inr ((f # fs) ! k)"
      using f fs(2) by (cases k) auto
  qed
  moreover have "r = forms @ filter (\<lambda>g. g \<notin> set forms) (first_seen (f # fs))"
  proof (cases "f \<in> set forms")
    case True
    then have "filter (\<lambda>g. g \<notin> set forms) (filter (\<lambda>y. y \<noteq> f) (first_seen fs))
                 = filter (\<lambda>g. g \<notin> set forms) (first_seen fs)"
      unfolding filter_filter by (intro filter_cong) auto
    with True fs(3) show ?thesis by simp
  next
    case False
    then have "filter (\<lambda>g. g \<notin> set forms) (filter (\<lambda>y. y \<noteq> f) (first_seen fs))
                 = filter (\<lambda>g. g \<notin> set (forms @ [f])) (first_seen fs)"
      unfolding filter_filter by (intro filter_cong) auto
    with False fs(3) show ?thesis by simp
  qed
  ultimately show ?case by blast
qed

lemma WordForms_loop_nonempty:
  assumes "WordForms_loop a para n stem 0 {} [] = Inr r" and "0 < n"
  shows "r \<noteq> []"
proof -
  from assms(1) have "WordForms_loop a para n stem 0 (set []) [] = Inr r" by simp
  from WordForms_loop_first_seen[OF this] obtain fs where
    "length fs = n" and "r = first_seen fs"
    by auto
  with assms(2) show ?thesis by (auto simp: first_seen_Nil)
qed

lemma WordForms_resolved:
  assumes "ToLower L (TrimSpace L w) \<noteq> []"
    and "get (words a) (ToLower L (TrimSpace L w)) = Some (Inr es)" and "es \<noteq> []"
    and "at (paradigms a) (unat (paradigmID (es ! 0))) = Inr para"
    and "unat (formIdx (es ! 0)) < length para div 3"
    and "extractStem a (ToLower L (TrimSpace L w)) para (length para div 3) (unat (formIdx (es ! 0)))
           = Inr (Some stem)"
  shows "WordForms L a w = Some (WordForms_loop a para (length para div 3) stem 0 {} [])"
  using assms by (simp add: WordForms_def Let_def)

lemma extractStem_exDup_b:
  "extractStem exDup ''b'' [0, 1, 0, 0, 1, 0, 0, 0, 0] 3 1 = Inr (Some [])"
  by (simp add: exDup_def exAnalyzer_def at_def extractStem_def paradigmPrefixes_def HasPrefix_def
        HasSuffix_def slice_def)

lemma WordForms_exDup_b: "WordForms asciiStrings exDup ''b'' = Some (Inr [''a'', ''b''])"
  by (simp add: WordForms_def normalize_b exDup_def exAnalyzer_def get_exWords_b ret_def at_def
        extractStem_def paradigmPrefixes_def HasPrefix_def HasSuffix_def slice_def form_at_def
        WordForms_loop.simps)

text \<open>
  C6: when \<open>extractStem\<close> succeeds on a word for the form \<open>fi\<close> of a paradigm,
  rebuilding that form from the stem (prefix, stem, suffix of form \<open>fi\<close>) gives the
  word back.  So, when \<open>WordForms\<close> uses the first entry of a non-empty normalized
  word (the form index is below N) and the stem extraction succeeds, every result of
  \<open>WordForms\<close> contains that word, and with the indices of the paradigm in range
  \<open>WordForms\<close> does return such a result.
\<close>

theorem stem_roundtrip:
  "(extractStem a word para n fi = Inr (Some stem) \<longrightarrow> form_at a para n stem fi = Inr word) \<and>
   (ToLower L (TrimSpace L w) \<noteq> [] \<and>
    get (words a) (ToLower L (TrimSpace L w)) = Some (Inr es) \<and> es \<noteq> [] \<and>
    at (paradigms a) (unat (paradigmID (es ! 0))) = Inr para' \<and>
    unat (formIdx (es ! 0)) < length para' div 3 \<and>
    extractStem a (ToLower L (TrimSpace L w)) para' (length para' div 3) (unat (formIdx (es ! 0)))
      = Inr (Some stem')
    \<longrightarrow> (\<forall>forms. WordForms L a w = Some (Inr forms) \<longrightarrow> ToLower L (TrimSpace L w) \<in> set forms) \<and>
        (paradigmInRange a para' \<longrightarrow>
           (\<exists>forms. WordForms L a w = Some (Inr forms) \<and> ToLower L (TrimSpace L w) \<in> set forms)))"
proof (rule conjI; rule impI)
  assume "extractStem a word para n fi = Inr (Some stem)"
  then show "form_at a para n stem fi = Inr word" by (rule extractStem_roundtrip)
next
  let ?w = "ToLower L (TrimSpace L w)" and ?n = "length para' div 3" and ?fi = "unat (formIdx (es ! 0))"
  assume h: "?w \<noteq> [] \<and> get (words a) ?w = Some (Inr es) \<and> es \<noteq> [] \<and>
    at (paradigms a) (unat (paradigmID (es ! 0))) = Inr para' \<and> ?fi < ?n \<and>
    extractStem a ?w para' ?n ?fi = Inr (Some stem')"
  then have h1: "?w \<noteq> []" and h2: "get (words a) ?w = Some (Inr es)" and h3: "es \<noteq> []"
    and h4: "at (paradigms a) (unat (paradigmID (es ! 0))) = Inr para'" and h5: "?fi < ?n"
    and h6: "extractStem a ?w para' ?n ?fi = Inr (Some stem')"
    by simp_all
  note unf = WordForms_resolved[OF h1 h2 h3 h4 h5 h6]
  have mem: "?w \<in> set forms" if "WordForms L a w = Some (Inr forms)" for forms
  proof -
    from unf that
    have "WordForms_loop a para' ?n stem' 0 (set []) [] = Inr forms" by simp
    from WordForms_loop_first_seen[OF this] obtain fs where
      fs: "length fs = ?n" "\<forall>i < ?n. form_at a para' ?n stem' i = Inr (fs ! i)"
          "forms = first_seen fs"
      by auto
    from extractStem_roundtrip[OF h6] have "form_at a para' ?n stem' ?fi = Inr ?w" .
    with fs(2) h5 have "fs ! ?fi = ?w" by auto
    with fs(1) h5 have "?w \<in> set fs" by (metis nth_mem)
    with fs(3) show ?thesis by (simp add: set_first_seen)
  qed
  have ret: "\<exists>forms. WordForms L a w = Some (Inr forms) \<and> ?w \<in> set forms"
    if "paradigmInRange a para'"
  proof -
    from WordForms_loop_total[OF that, of stem' 0 "{}" "[]"] obtain forms where
      "WordForms_loop a para' ?n stem' 0 {} [] = Inr forms" ..
    with unf have "WordForms L a w = Some (Inr forms)" by simp
    with mem show ?thesis by blast
  qed
  from mem ret
  show "(\<forall>forms. WordForms L a w = Some (Inr forms) \<longrightarrow> ?w \<in> set forms) \<and>
        (paradigmInRange a para' \<longrightarrow>
           (\<exists>forms. WordForms L a w = Some (Inr forms) \<and> ?w \<in> set forms))"
    by blast
qed

lemma paradigmInRange_exAnalyzer: "paradigmInRange exAnalyzer [0, 1, 0, 1, 0, 0]"
  by (simp add: paradigmInRange_def exAnalyzer_def paradigmPrefixes_def upt_0_2)

theorem stem_roundtrip_witness:
  "extractStem exAnalyzer ''b'' [0, 1, 0, 1, 0, 0] 2 1 = Inr (Some []) \<and>
   form_at exAnalyzer [0, 1, 0, 1, 0, 0] 2 [] 1 = Inr ''b'' \<and>
   get (words exAnalyzer) (ToLower asciiStrings (TrimSpace asciiStrings ''b'')) = Some (Inr [\<lparr>paradigmID = 0, formIdx = 1\<rparr>]) \<and>
   paradigmInRange exAnalyzer [0, 1, 0, 1, 0, 0] \<and>
   WordForms asciiStrings exAnalyzer ''b'' = Some (Inr [''a'', ''b'']) \<and>
   ToLower asciiStrings (TrimSpace asciiStrings ''b'') \<in> set [''a'', ''b'']"
  using stem_roundtrip [where a = exAnalyzer and L = asciiStrings and word = "''b''"
          and para = "[0, 1, 0, 1, 0, 0]" and n = 2 and fi = 1 and stem = "[]" and w = "''b''"
          and es = "[\<lparr>paradigmID = 0, formIdx = 1\<rparr>]" and para' = "[0, 1, 0, 1, 0, 0]"
          and stem' = "[]"]
        extractStem_exAnalyzer_b WordForms_exAnalyzer_b get_exWords_b paradigmInRange_exAnalyzer
  by (simp add: normalize_b exAnalyzer_def at_def)

text \<open>
  C9, as stated, fails: a word of the index can have an empty result.  In \<open>exShort\<close>
  the word \<open>b\<close> is in the index, its form index is not below N, and \<open>WordForms\<close>
  returns nothing, by its own check.
\<close>

theorem WordForms_empty_for_indexed_word:
  "get (words exShort) (ToLower asciiStrings (TrimSpace asciiStrings ''b'')) = Some (Inr [\<lparr>paradigmID = 0, formIdx = 1\<rparr>]) \<and>
   WordForms asciiStrings exShort ''b'' = Some (Inr [])"
  by (simp add: WordForms_def normalize_b exShort_def get_exWords_b ret_def at_def)

text \<open>
  C9, amended: for every non-empty normalized word of the index whose first entry passes
  the form-index check of \<open>WordForms\<close> and whose stem extraction succeeds, every
  result of \<open>WordForms\<close> is non-empty and without duplicates, and it is the list of the
  forms \<open>0..N\<close> of the paradigm, each kept at its first occurrence only; with the
  indices of the paradigm in range \<open>WordForms\<close> does return a result.
\<close>

theorem WordForms_first_seen:
  assumes "ToLower L (TrimSpace L w) \<noteq> []"
    and "get (words a) (ToLower L (TrimSpace L w)) = Some (Inr es)" and "es \<noteq> []"
    and "at (paradigms a) (unat (paradigmID (es ! 0))) = Inr para"
    and "unat (formIdx (es ! 0)) < length para div 3"
    and "extractStem a (ToLower L (TrimSpace L w)) para (length para div 3) (unat (formIdx (es ! 0)))
           = Inr (Some stem)"
  shows "(\<forall>forms. WordForms L a w = Some (Inr forms) \<longrightarrow>
            forms \<noteq> [] \<and> distinct forms \<and>
            (\<exists>fs. length fs = length para div 3 \<and>
                  (\<forall>i < length para div 3.
                      form_at a para (length para div 3) stem i = Inr (fs ! i)) \<and>
                  forms = first_seen fs)) \<and>
         (paradigmInRange a para \<longrightarrow> (\<exists>forms. WordForms L a w = Some (Inr forms)))"
proof (intro conjI allI impI)
  note unf = WordForms_resolved[OF assms]
  fix forms
  assume "WordForms L a w = Some (Inr forms)"
  with unf have "WordForms_loop a para (length para div 3) stem 0 (set []) [] = Inr forms"
    by simp
  from WordForms_loop_first_seen[OF this] obtain fs where
    fs: "length fs = length para div 3"
        "\<forall>i < length para div 3. form_at a para (length para div 3) stem i = Inr (fs ! i)"
        "forms = first_seen fs"
    by auto
  from fs(1) assms(5) have "fs \<noteq> []" by auto
  with fs(3) show "forms \<noteq> []" by (simp add: first_seen_Nil)
  from fs(3) show "distinct forms" by (simp add: distinct_first_seen)
  from fs show "\<exists>fs. length fs = length para div 3 \<and>
      (\<forall>i < length para div 3. form_at a para (length para div 3) stem i = Inr (fs ! i)) \<and>
      forms = first_seen fs"
    by blast
next
  assume "paradigmInRange a para"
  from WordForms_loop_total[OF this, of stem 0 "{}" "[]"] obtain forms where
    "WordForms_loop a para (length para div 3) stem 0 {} [] = Inr forms" ..
  with WordForms_resolved[OF assms] show "\<exists>forms. WordForms L a w = Some (Inr forms)" by simp
qed

lemma paradigmInRange_exDup: "paradigmInRange exDup [0, 1, 0, 0, 1, 0, 0, 0, 0]"
  by (simp add: paradigmInRange_def exDup_def exAnalyzer_def paradigmPrefixes_def
        upt_conv_Cons)

theorem WordForms_first_seen_witness:
  "get (words exDup) (ToLower asciiStrings (TrimSpace asciiStrings ''b'')) = Some (Inr [\<lparr>paradigmID = 0, formIdx = 1\<rparr>]) \<and>
   extractStem exDup ''b'' [0, 1, 0, 0, 1, 0, 0, 0, 0] 3 1 = Inr (Some []) \<and>
   paradigmInRange exDup [0, 1, 0, 0, 1, 0, 0, 0, 0] \<and>
   WordForms asciiStrings exDup ''b'' = Some (Inr [''a'', ''b'']) \<and>
   [''a'', ''b''] = first_seen [''a'', ''b'', ''a''] \<and>
   distinct [''a'', ''b'' :: string]"
  using WordForms_first_seen [where L = asciiStrings and w = "''b''" and a = exDup
          and es = "[\<lparr>paradigmID = 0, formIdx = 1\<rparr>]"
          and para = "[0, 1, 0, 0, 1, 0, 0, 0, 0]" and stem = "[]"]
        extractStem_exDup_b WordForms_exDup_b get_exWords_b paradigmInRange_exDup
  by (simp add: normalize_b exDup_def exAnalyzer_def at_def)

section \<open>Phrases\<close>

lemma ret_Inr [simp]: "ret x = Some (Inr y) \<longleftrightarrow> x = y"
  by (simp add: ret_def)

lemma addUnseen_inv:
  "addUnseen fs (set result) result = (seen', result') \<Longrightarrow>
   seen' = set result' \<and> prefix result result' \<and> (distinct result \<longrightarrow> distinct result')"
proof (induction fs arbitrary: result)
  case Nil
  then show ?case by auto
next
  case (Cons f fs)
  show ?case
  proof (cases "f \<in> set result")
    case True
    with Cons.prems have "addUnseen fs (set result) result = (seen', result')" by simp
    from Cons.IH[OF this] show ?thesis .
  next
    case False
    with Cons.prems have "addUnseen fs (set (result @ [f])) (result @ [f]) = (seen', result')"
      by simp
    from Cons.IH[OF this] False show ?thesis
      by (auto dest: append_prefixD)
  qed
qed

lemma flattenForms_prefix:
  "flattenForms L a ws (set result) result = Some (Inr r) \<Longrightarrow> prefix result r"
proof (induction ws arbitrary: result)
  case Nil
  then show ?case by simp
next
  case (Cons w ws)
  show ?case
  proof (cases "serviceWords w")
    case True
    with Cons show ?thesis by simp
  next
    case False
    with Cons.prems obtain forms where
      "WordForms L a w = Some (Inr forms)" and
      r: "(case addUnseen forms (set result) result of
            (seen', result') \<Rightarrow> flattenForms L a ws seen' result') = Some (Inr r)"
      by (auto simp: bindR_Inr)
    obtain seen' result' where au: "addUnseen forms (set result) result = (seen', result')"
      by (cases "addUnseen forms (set result) result")
    from addUnseen_inv[OF au] have inv: "seen' = set result'" "prefix result result'"
      by simp_all
    from r au inv(1) have "flattenForms L a ws (set result') result' = Some (Inr r)"
      by simp
    from Cons.IH[OF this] inv(2) show ?thesis
      by (rule prefix_order.order_trans[rotated])
  qed
qed

lemma casesLoop_inv:
  "casesLoop a ws infos head number cases (set result) result = Some (Inr (seen', result')) \<Longrightarrow>
   seen' = set result' \<and> prefix result result' \<and>
   length result' \<le> length result + length cases \<and>
   (distinct result \<longrightarrow> distinct result')"
proof (induction cases arbitrary: result)
  case Nil
  then show ?case by auto
next
  case (Cons cas cases)
  from Cons.prems obtain declined where
    "declineWords a ws infos head cas number 0 = Some (Inr declined)" and
    r: "(let form = Join declined '' ''
         in if form \<notin> set result then
              casesLoop a ws infos head number cases (insert form (set result)) (result @ [form])
            else casesLoop a ws infos head number cases (set result) result)
        = Some (Inr (seen', result'))"
    by (auto simp: bindR_Inr)
  let ?form = "Join declined '' ''"
  show ?case
  proof (cases "?form \<in> set result")
    case True
    with r have "casesLoop a ws infos head number cases (set result) result
        = Some (Inr (seen', result'))" by (simp add: Let_def)
    from Cons.IH[OF this] show ?thesis by simp
  next
    case False
    with r have "casesLoop a ws infos head number cases (set (result @ [?form])) (result @ [?form])
        = Some (Inr (seen', result'))" by (simp add: Let_def)
    from Cons.IH[OF this] False show ?thesis
      by (auto dest: append_prefixD)
  qed
qed

lemma numbersLoop_inv:
  "numbersLoop a ws infos head numbers cases (set result) result = Some (Inr (seen', result')) \<Longrightarrow>
   seen' = set result' \<and> prefix result result' \<and>
   length result' \<le> length result + length numbers * length cases \<and>
   (distinct result \<longrightarrow> distinct result')"
proof (induction numbers arbitrary: result)
  case Nil
  then show ?case by auto
next
  case (Cons number numbers)
  from Cons.prems obtain sr where
    c: "casesLoop a ws infos head number cases (set result) result = Some (Inr sr)" and
    n: "(case sr of (seen1, result1) \<Rightarrow> numbersLoop a ws infos head numbers cases seen1 result1)
          = Some (Inr (seen', result'))"
    by (auto simp: bindR_Inr)
  obtain seen1 result1 where sr: "sr = (seen1, result1)" by (cases sr)
  from casesLoop_inv[OF c[unfolded sr]] have
    i1: "seen1 = set result1" "prefix result result1"
        "length result1 \<le> length result + length cases" "distinct result \<longrightarrow> distinct result1"
    by simp_all
  from n sr i1(1) have "numbersLoop a ws infos head numbers cases (set result1) result1
      = Some (Inr (seen', result'))" by simp
  from Cons.IH[OF this] have
    i2: "seen' = set result'" "prefix result1 result'"
        "length result' \<le> length result1 + length numbers * length cases"
        "distinct result1 \<longrightarrow> distinct result'"
    by simp_all
  from i1(2) i2(2) have "prefix result result'" by (rule prefix_order.order_trans)
  moreover from i1(3) i2(3) have "length result' \<le> length result + length (number # numbers) * length cases"
    by simp
  ultimately show ?case using i2(1) i1(4) i2(4) by blast
qed

lemma PhraseFormsConcordant_multi:
  assumes "length (Fields L (ToLower L (TrimSpace L p))) \<ge> 2"
  shows "PhraseFormsConcordant L a p =
     bindR (scanWords L a (Fields L (ToLower L (TrimSpace L p))) 0
              (replicate (length (Fields L (ToLower L (TrimSpace L p)))) noInfo) (- 1))
       (\<lambda>(infos, headIdx).
          if headIdx = - 1 then
            flattenForms L a (Fields L (ToLower L (TrimSpace L p))) {ToLower L (TrimSpace L p)}
              [ToLower L (TrimSpace L p)]
          else
            bindR (numbersLoop a (Fields L (ToLower L (TrimSpace L p))) infos (infos ! nat headIdx)
                     [''sing'', ''plur'']
                     [''nomn'', ''gent'', ''datv'', ''accs'', ''ablt'', ''loct'']
                     {ToLower L (TrimSpace L p)} [ToLower L (TrimSpace L p)])
              (\<lambda>(seen, result). ret result))"
proof -
  from assms have "length (Fields L (ToLower L (TrimSpace L p))) \<noteq> 0"
    and "length (Fields L (ToLower L (TrimSpace L p))) \<noteq> 1"
    by linarith+
  then show ?thesis
    unfolding PhraseFormsConcordant_def Let_def by (simp only: if_False)
qed

lemma normalize_b_b: "ToLower asciiStrings (TrimSpace asciiStrings ''b b'') = ''b b''"
  by (simp add: asciiStrings_def asciiTrimSpace_def asciiSpace_def asciiToLower_def lowerASCII_def)

lemma Fields_b_b: "Fields asciiStrings ''b b'' = [''b'', ''b'']"
  by (simp add: asciiStrings_def asciiFields_def asciiSpace_def)

lemma not_serviceWords_b: "\<not> serviceWords ''b''"
  by (simp add: serviceWords_def serviceWordKeys_def)

lemma Tag_exAnalyzer_b: "Tag asciiStrings exAnalyzer ''b'' = Some (Inr ''NOUN,inan,masc sing,gent'')"
  by (simp add: Tag_def normalize_b exAnalyzer_def get_exWords_b at_def)

lemma scanWords_b_b:
  "scanWords asciiStrings exAnalyzer [''b'', ''b''] 0 [noInfo, noInfo] (- 1) = Some (Inr ([exInfo, exInfo], 1))"
  by (simp add: not_serviceWords_b Tag_exAnalyzer_b tagPOS_def exInfo_def ret_def)

lemma inflect_exAnalyzer_b:
  "inflect exAnalyzer ''b'' cas num [] [] =
     Some (inflect_loop exAnalyzer [0, 1, 0, 1, 0, 0] 2 [] ''b'' cas num [] [] 0)"
  by (simp add: inflect_def exAnalyzer_def get_exWords_b at_def
        extractStem_def paradigmPrefixes_def HasPrefix_def HasSuffix_def slice_def)

lemma inflect_loop_exAnalyzer_b:
  "inflect_loop exAnalyzer [0, 1, 0, 1, 0, 0] 2 [] ''b'' ''nomn'' ''sing'' [] [] 0 = Inr ''a''"
  "inflect_loop exAnalyzer [0, 1, 0, 1, 0, 0] 2 [] ''b'' ''gent'' ''sing'' [] [] 0 = Inr ''b''"
  "inflect_loop exAnalyzer [0, 1, 0, 1, 0, 0] 2 [] ''b'' ''datv'' ''sing'' [] [] 0 = Inr ''b''"
  "inflect_loop exAnalyzer [0, 1, 0, 1, 0, 0] 2 [] ''b'' ''accs'' ''sing'' [] [] 0 = Inr ''b''"
  "inflect_loop exAnalyzer [0, 1, 0, 1, 0, 0] 2 [] ''b'' ''ablt'' ''sing'' [] [] 0 = Inr ''b''"
  "inflect_loop exAnalyzer [0, 1, 0, 1, 0, 0] 2 [] ''b'' ''loct'' ''sing'' [] [] 0 = Inr ''b''"
  by (simp_all add: inflect_loop.simps exAnalyzer_def at_def tagMatches_def form_at_def
        paradigmPrefixes_def)

lemma inflect_loop_exAnalyzer_b_plur:
  "inflect_loop exAnalyzer [0, 1, 0, 1, 0, 0] 2 [] ''b'' cas ''plur'' [] [] 0 = Inr ''b''"
  by (simp add: inflect_loop.simps exAnalyzer_def at_def tagMatches_def form_at_def paradigmPrefixes_def)

lemma PhraseFormsConcordant_b_b:
  "PhraseFormsConcordant asciiStrings exAnalyzer ''b b'' = Some (Inr [''b b'', ''a a''])"
proof -
  have len: "length (Fields asciiStrings (ToLower asciiStrings (TrimSpace asciiStrings ''b b''))) \<ge> 2"
    by (simp add: normalize_b_b Fields_b_b)
  show ?thesis
    unfolding PhraseFormsConcordant_multi [OF len] normalize_b_b Fields_b_b
    by (simp add: not_serviceWords_b Tag_exAnalyzer_b tagPOS_def inflect_exAnalyzer_b
          inflect_loop_exAnalyzer_b inflect_loop_exAnalyzer_b_plur ret_def Let_def)
qed

text \<open>
  C10: for a phrase of at least two tokens in which the scan of the tokens finds a head
  (the index of the rightmost noun or pronoun is not -1), the result of
  \<open>PhraseFormsConcordant\<close> has at most 13 elements: the normalized phrase first, and at
  most one declined phrase for each of the 2 numbers and 6 cases, without duplicates.
\<close>

theorem phrase_forms_bound:
  assumes "PhraseFormsConcordant L a p = Some (Inr r)"
    and "length (Fields L (ToLower L (TrimSpace L p))) \<ge> 2"
    and "scanWords L a (Fields L (ToLower L (TrimSpace L p))) 0
           (replicate (length (Fields L (ToLower L (TrimSpace L p)))) noInfo) (- 1)
         = Some (Inr (infos, headIdx))"
    and "headIdx \<noteq> - 1"
  shows "length r \<le> 13 \<and> distinct r \<and> hd r = ToLower L (TrimSpace L p)"
proof -
  let ?phrase = "ToLower L (TrimSpace L p)"
  let ?ws = "Fields L ?phrase"
  from assms(1) have
    "bindR (numbersLoop a ?ws infos (infos ! nat headIdx) [''sing'', ''plur'']
       [''nomn'', ''gent'', ''datv'', ''accs'', ''ablt'', ''loct''] {?phrase} [?phrase])
       (\<lambda>(seen, result). ret result) = Some (Inr r)"
    unfolding PhraseFormsConcordant_multi[OF assms(2)] assms(3) using assms(4) by simp
  then obtain sr where
    n: "numbersLoop a ?ws infos (infos ! nat headIdx) [''sing'', ''plur'']
       [''nomn'', ''gent'', ''datv'', ''accs'', ''ablt'', ''loct''] {?phrase} [?phrase]
     = Some (Inr sr)" and "(case sr of (seen, result) \<Rightarrow> ret result) = Some (Inr r)"
    unfolding bindR_Inr by blast
  then obtain seen' where sr: "sr = (seen', r)" by (cases sr) simp
  from n sr have "numbersLoop a ?ws infos (infos ! nat headIdx) [''sing'', ''plur'']
       [''nomn'', ''gent'', ''datv'', ''accs'', ''ablt'', ''loct''] (set [?phrase]) [?phrase]
     = Some (Inr (seen', r))" by simp
  from numbersLoop_inv[OF this] have "prefix [?phrase] r" "length r \<le> 13" "distinct r"
    by simp_all
  then show ?thesis
    by (auto simp: prefix_def)
qed

theorem phrase_forms_bound_witness:
  "PhraseFormsConcordant asciiStrings exAnalyzer ''b b'' = Some (Inr [''b b'', ''a a'']) \<and>
   length (Fields asciiStrings (ToLower asciiStrings (TrimSpace asciiStrings ''b b''))) = 2 \<and>
   scanWords asciiStrings exAnalyzer (Fields asciiStrings (ToLower asciiStrings (TrimSpace asciiStrings ''b b''))) 0
     (replicate (length (Fields asciiStrings (ToLower asciiStrings (TrimSpace asciiStrings ''b b'')))) noInfo) (- 1)
     = Some (Inr ([exInfo, exInfo], 1)) \<and>
   length [''b b'', ''a a''] \<le> 13 \<and> hd [''b b'', ''a a''] = ToLower asciiStrings (TrimSpace asciiStrings ''b b'')"
proof -
  have len: "length (Fields asciiStrings (ToLower asciiStrings (TrimSpace asciiStrings ''b b''))) \<ge> 2"
    by (simp add: normalize_b_b Fields_b_b)
  have scan: "scanWords asciiStrings exAnalyzer (Fields asciiStrings (ToLower asciiStrings (TrimSpace asciiStrings ''b b''))) 0
     (replicate (length (Fields asciiStrings (ToLower asciiStrings (TrimSpace asciiStrings ''b b'')))) noInfo) (- 1)
     = Some (Inr ([exInfo, exInfo], 1))"
    unfolding normalize_b_b Fields_b_b using scanWords_b_b by (simp add: numeral_2_eq_2)
  have h: "(1 :: int) \<noteq> - 1" by simp
  from phrase_forms_bound [OF PhraseFormsConcordant_b_b len scan h]
       PhraseFormsConcordant_b_b scan
  show ?thesis
    by (simp add: normalize_b_b Fields_b_b)
qed

section \<open>The first element of a phrase result\<close>

lemma Fields_b: "Fields asciiStrings ''b'' = [''b'']"
  by (simp add: asciiStrings_def asciiFields_def asciiSpace_def)

lemma normalize_a: "ToLower asciiStrings (TrimSpace asciiStrings ''a'') = ''a''"
  by (simp add: asciiStrings_def asciiTrimSpace_def asciiSpace_def asciiToLower_def lowerASCII_def)

lemma WordForms_exAnalyzer_a: "WordForms asciiStrings exAnalyzer ''a'' = Some (Inr [])"
  by (simp add: WordForms_def normalize_a exAnalyzer_def get_exWords_a ret_def)

lemma Fields_a: "Fields asciiStrings ''a'' = [''a'']"
  by (simp add: asciiStrings_def asciiFields_def asciiSpace_def)

lemma PhraseFormsConcordant_a:
  "PhraseFormsConcordant asciiStrings exAnalyzer ''a'' = Some (Inr [''a''])"
  unfolding PhraseFormsConcordant_def Let_def normalize_a Fields_a
  by (simp add: WordForms_exAnalyzer_a ret_def)

lemma PhraseFormsConcordant_b:
  "PhraseFormsConcordant asciiStrings exAnalyzer ''b'' = Some (Inr [''a'', ''b''])"
  unfolding PhraseFormsConcordant_def Let_def normalize_b Fields_b
  by (simp add: WordForms_exAnalyzer_b ret_def)

text \<open>
  C2 fails on the code for a single token that \<open>WordForms\<close> resolves: the result is
  then the list of the word forms, which starts with form 0 of the paradigm, although
  the comment of \<open>PhraseFormsConcordant\<close> promises the original phrase as the first
  element.  In \<open>exAnalyzer\<close> the phrase \<open>b\<close> is its own lowercased and trimmed form,
  and the result is the list of the forms \<open>a\<close>, \<open>b\<close>.
\<close>

theorem single_token_phrase_not_first:
  "ToLower asciiStrings (TrimSpace asciiStrings ''b'') = ''b'' \<and>
   Fields asciiStrings ''b'' = [''b''] \<and>
   PhraseFormsConcordant asciiStrings exAnalyzer ''b'' = Some (Inr [''a'', ''b'']) \<and>
   hd [''a'', ''b''] \<noteq> ''b''"
  by (simp add: normalize_b PhraseFormsConcordant_b Fields_b)

theorem single_token_phrase_not_first_witness:
  "PhraseFormsConcordant asciiStrings exAnalyzer ''b'' \<noteq> Some (Inr [''b''])"
  using single_token_phrase_not_first by simp

section \<open>Panics on dictionary data\<close>




























end
